theory Spec2Isabelle
  imports Complex_Main "HOL-Library.Multiset" "HOL-Library.Log_Nat"
begin

section \<open>JavaScript control flow as values\<close>

text \<open>
  A value that reaches a \<^verbatim>\<open>catch\<close> clause. The scripts only ask whether it is an
  \<^verbatim>\<open>Error\<close> instance, and read its \<^verbatim>\<open>message\<close> when it is: \<open>ErrorInstance message\<close> is
  an \<^verbatim>\<open>Error\<close> whose \<^verbatim>\<open>message\<close> reads as the string \<open>message\<close>, \<open>NonError\<close> a value that
  is no \<^verbatim>\<open>Error\<close>. A thrown value may be any object, so the \<^verbatim>\<open>instanceof\<close> test or the read of \<^verbatim>\<open>message\<close> can throw in
  its turn (a proxy, a \<^verbatim>\<open>message\<close> getter that throws): \<open>Uninspectable e\<close> is such a
  value, and \<open>e\<close> is what its inspection throws.
\<close>

datatype thrown = ErrorInstance string | NonError | Uninspectable thrown

text \<open>
  How the evaluation of an asynchronous function ends: it returns a value, it throws
  (its promise rejects), or its promise never settles and the caller waits forever.
\<close>

datatype 'a completion = Normal 'a | Throw thrown | Pending

fun andThen :: "'a completion \<Rightarrow> ('a \<Rightarrow> 'b completion) \<Rightarrow> 'b completion" where
  "andThen (Normal x) k = k x"
| "andThen (Throw e) k = Throw e"
| "andThen Pending k = Pending"

section \<open>scripts/benchmark.ts: the operation timer\<close>

record BenchmarkResult =
  database :: string
  operation :: string
  duration :: int
  latency :: int
  success :: bool
  error :: "string option"

text \<open>
  The benchmark object owns the \<^verbatim>\<open>results\<close> array. \<^verbatim>\<open>Date.now()\<close> reads the clock of the
  environment, an integer number of milliseconds; the model carries it next to the array
  as \<open>now\<close>.
\<close>

record DatabaseBenchmark =
  results :: "BenchmarkResult list"
  now :: int

text \<open>
  The action \<^verbatim>\<open>fn\<close> is a closure over a database client. Started at a clock reading it
  fulfils or rejects at a later reading, or never settles. The clock is not assumed
  monotone, as \<^verbatim>\<open>Date.now()\<close> is not.
\<close>

datatype outcome = Fulfilled int | Rejected thrown int | NeverSettles

type_synonym action = "int \<Rightarrow> outcome"

text \<open>
  The expression \<^verbatim>\<open>error instanceof Error ? error.message : 'Unknown error'\<close> of the
  \<^verbatim>\<open>catch\<close> clause: \<open>Inr\<close> its value, \<open>Inl\<close> what its evaluation throws.
\<close>

fun error_message :: "thrown \<Rightarrow> thrown + string" where
  "error_message (ErrorInstance message) = Inr message"
| "error_message NonError = Inr ''Unknown error''"
| "error_message (Uninspectable e) = Inl e"

text \<open>
  The timer. The \<^verbatim>\<open>catch\<close> clause builds the entry before it pushes it, the duration
  first and the error message last, and nothing encloses the clause: where the
  message cannot be read, the timer throws and has pushed nothing.
\<close>

definition measureOperation ::
  "string \<Rightarrow> string \<Rightarrow> action \<Rightarrow> DatabaseBenchmark \<Rightarrow> DatabaseBenchmark completion" where
  "measureOperation db op fn b =
     (let start = now b in
      case fn start of
        Fulfilled t \<Rightarrow>
          (let duration = t - start in
           Normal \<lparr>results = results b @
                     [\<lparr>database = db, operation = op, duration = duration,
                       latency = duration, success = True, error = None\<rparr>],
                   now = t\<rparr>)
      | Rejected err t \<Rightarrow>
          (case error_message err of
             Inl e \<Rightarrow> Throw e
           | Inr message \<Rightarrow>
               Normal \<lparr>results = results b @
                         [\<lparr>database = db, operation = op, duration = t - start,
                           latency = 0, success = False, error = Some message\<rparr>],
                       now = t\<rparr>)
      | NeverSettles \<Rightarrow> Pending)"


section \<open>scripts/benchmark.ts: the workload runners\<close>

text \<open>
  What the closures of the runners do depends on the three backends only; each call site
  gets its own action. The 10000 generated rows of the write test enter the closures and
  nothing else.
\<close>

record backend_actions =
  neon_write :: action
  supabase_write :: action
  mongodb_write :: action
  neon_simple_query :: action
  supabase_simple_query :: action
  mongodb_simple_query :: action
  neon_complex_query :: action
  supabase_complex_query :: action
  mongodb_complex_query :: action
  neon_cold_start :: action
  mongodb_cold_start :: action

definition runWriteTest :: "backend_actions \<Rightarrow> DatabaseBenchmark \<Rightarrow> DatabaseBenchmark completion" where
  "runWriteTest env b =
     andThen (measureOperation ''Neon'' ''Write 10k rows'' (neon_write env) b) (\<lambda>b.
     andThen (measureOperation ''Supabase'' ''Write 10k rows'' (supabase_write env) b) (\<lambda>b.
     measureOperation ''MongoDB'' ''Write 10k rows'' (mongodb_write env) b))"

definition runReadTest :: "backend_actions \<Rightarrow> DatabaseBenchmark \<Rightarrow> DatabaseBenchmark completion" where
  "runReadTest env b =
     andThen (measureOperation ''Neon'' ''Simple Query'' (neon_simple_query env) b) (\<lambda>b.
     andThen (measureOperation ''Supabase'' ''Simple Query'' (supabase_simple_query env) b) (\<lambda>b.
     andThen (measureOperation ''MongoDB'' ''Simple Query'' (mongodb_simple_query env) b) (\<lambda>b.
     andThen (measureOperation ''Neon'' ''Complex Query'' (neon_complex_query env) b) (\<lambda>b.
     andThen (measureOperation ''Supabase'' ''Complex Query'' (supabase_complex_query env) b) (\<lambda>b.
     measureOperation ''MongoDB'' ''Complex Query'' (mongodb_complex_query env) b)))))"

definition runColdStartTest :: "backend_actions \<Rightarrow> DatabaseBenchmark \<Rightarrow> DatabaseBenchmark completion" where
  "runColdStartTest env b =
     andThen (measureOperation ''Neon'' ''Cold Start'' (neon_cold_start env) b) (\<lambda>b.
     measureOperation ''MongoDB'' ''Cold Start'' (mongodb_cold_start env) b)"

text \<open>The (backend, operation) labels of the entries a run has appended, in order.\<close>

definition labels :: "BenchmarkResult list \<Rightarrow> (string \<times> string) list" where
  "labels rs = map (\<lambda>r. (database r, operation r)) rs"

text \<open>A backend that answers every request after \<open>ms\<close> milliseconds.\<close>

definition answers_after :: "int \<Rightarrow> action" where
  "answers_after ms = (\<lambda>start. Fulfilled (start + ms))"

definition healthy_backends :: backend_actions where
  "healthy_backends =
     \<lparr>neon_write = answers_after 2300, supabase_write = answers_after 1900,
      mongodb_write = answers_after 1900,
      neon_simple_query = answers_after 12, supabase_simple_query = answers_after 8,
      mongodb_simple_query = answers_after 8,
      neon_complex_query = answers_after 45, supabase_complex_query = answers_after 35,
      mongodb_complex_query = answers_after 35,
      neon_cold_start = answers_after 150, mongodb_cold_start = answers_after 120\<rparr>"

definition fresh :: DatabaseBenchmark where
  "fresh = \<lparr>results = [], now = 0\<rparr>"

text \<open>
  The thrown values that the \<^verbatim>\<open>catch\<close> clause can inspect, and the outcomes of an
  action that the timer can record: the action completes, or it raises such a value.
\<close>

fun inspectable :: "thrown \<Rightarrow> bool" where
  "inspectable (ErrorInstance message) = True"
| "inspectable NonError = True"
| "inspectable (Uninspectable e) = False"


section \<open>scripts/schema-generator.ts: the schema and its rendering\<close>

record SchemaField =
  name :: string
  type :: string
  constraints :: "string list"
  description :: string

text \<open>
  The member \<^verbatim>\<open>fields\<close> is written \<open>fields'\<close>: the record package keeps the plain
  name for itself.
\<close>

record TableSchema =
  name :: string
  fields' :: "SchemaField list"
  relationships :: "string list"
  indexes :: "string list"

text \<open>\<^verbatim>\<open>Array.prototype.join\<close> on an array of strings.\<close>

fun join :: "string \<Rightarrow> string list \<Rightarrow> string" where
  "join sep [] = []"
| "join sep [x] = x"
| "join sep (x # y # ys) = x @ sep @ join sep (y # ys)"

text \<open>The callback of \<^verbatim>\<open>table.fields.map\<close>: one column definition.\<close>

definition column :: "SchemaField \<Rightarrow> string" where
  "column field =
     (let constraints = join '' '' (constraints field)
      in ''  '' @ SchemaField.name field @ '' '' @ type field @ '' '' @ constraints)"

text \<open>The inner loop: every index string is pushed as it is.\<close>

fun push_indexes :: "string list \<Rightarrow> string list \<Rightarrow> string list" where
  "push_indexes sqlStatements [] = sqlStatements"
| "push_indexes sqlStatements (index # rest) = push_indexes (sqlStatements @ [index]) rest"

text \<open>The outer loop over the tables; \<open>sqlStatements\<close> is the array built so far.\<close>

fun push_tables :: "string list \<Rightarrow> TableSchema list \<Rightarrow> string list" where
  "push_tables sqlStatements [] = sqlStatements"
| "push_tables sqlStatements (table # rest) =
     (let fields = join '',\<newline>'' (map column (fields' table));
          sqlStatements = sqlStatements @
            [''\<newline>CREATE TABLE '' @ TableSchema.name table @ '' (\<newline>'' @ fields @ ''\<newline>);''];
          sqlStatements = push_indexes sqlStatements (indexes table)
      in push_tables sqlStatements rest)"

definition generateSQL :: "TableSchema list \<Rightarrow> string" where
  "generateSQL schema = join ''\<newline>\<newline>'' (push_tables [] schema)"

definition mockSchema :: "TableSchema list" where
  "mockSchema =
     [\<lparr>name = ''users'',
       fields' =
         [\<lparr>SchemaField.name = ''id'', type = ''SERIAL'', constraints = [''PRIMARY KEY''],
           description = ''Unique identifier for the user''\<rparr>,
          \<lparr>SchemaField.name = ''username'', type = ''VARCHAR(50)'', constraints = [''NOT NULL'', ''UNIQUE''],
           description = ''User's username''\<rparr>,
          \<lparr>SchemaField.name = ''email'', type = ''VARCHAR(255)'', constraints = [''NOT NULL'', ''UNIQUE''],
           description = ''User's email''\<rparr>,
          \<lparr>SchemaField.name = ''created_at'', type = ''TIMESTAMP'',
           constraints = [''NOT NULL'', ''DEFAULT CURRENT_TIMESTAMP''],
           description = ''Creation timestamp''\<rparr>],
       relationships = [],
       indexes = [''CREATE INDEX idx_users_username ON users(username);'']\<rparr>,
      \<lparr>name = ''posts'',
       fields' =
         [\<lparr>SchemaField.name = ''id'', type = ''SERIAL'', constraints = [''PRIMARY KEY''],
           description = ''Unique identifier for the post''\<rparr>,
          \<lparr>SchemaField.name = ''title'', type = ''VARCHAR(255)'', constraints = [''NOT NULL''],
           description = ''Post title''\<rparr>,
          \<lparr>SchemaField.name = ''content'', type = ''TEXT'', constraints = [''NOT NULL''],
           description = ''Post content''\<rparr>,
          \<lparr>SchemaField.name = ''user_id'', type = ''INTEGER'',
           constraints = [''NOT NULL'', ''REFERENCES users(id)''],
           description = ''Author ID''\<rparr>,
          \<lparr>SchemaField.name = ''created_at'', type = ''TIMESTAMP'',
           constraints = [''NOT NULL'', ''DEFAULT CURRENT_TIMESTAMP''],
           description = ''Creation timestamp''\<rparr>],
       relationships = [''FOREIGN KEY (user_id) REFERENCES users(id)''],
       indexes = [''CREATE INDEX idx_posts_user_id ON posts(user_id);'']\<rparr>]"

text \<open>
  A text made of parts with a separator between them, written without reference to
  \<open>join\<close>: the first part, then every further part in its order, each preceded by the
  separator; the empty text when there is no part.
\<close>

abbreviation separated :: "string \<Rightarrow> string list \<Rightarrow> string" where
  "separated sep parts \<equiv>
     (case parts of [] \<Rightarrow> [] | part # rest \<Rightarrow> part @ concat (map (\<lambda>next. sep @ next) rest))"

text \<open>
  The statements pushed for one table, its \<^verbatim>\<open>CREATE TABLE\<close> statement followed by its
  index strings, and those pushed for a schema.
\<close>

definition create_table_statement :: "TableSchema \<Rightarrow> string" where
  "create_table_statement table =
     ''\<newline>CREATE TABLE '' @ TableSchema.name table @ '' (\<newline>'' @
     join '',\<newline>'' (map column (fields' table)) @ ''\<newline>);''"

definition table_block :: "TableSchema \<Rightarrow> string list" where
  "table_block table = create_table_statement table # indexes table"

definition statements_in_order :: "TableSchema list \<Rightarrow> string list" where
  "statements_in_order schema = concat (map table_block schema)"

text \<open>What the rendering reads of a table: its name, of each field the name, the type and
  the constraints, and the index strings.\<close>

definition rendered_part ::
  "TableSchema \<Rightarrow> string \<times> (string \<times> string \<times> string list) list \<times> string list" where
  "rendered_part table =
     (TableSchema.name table,
      map (\<lambda>field. (SchemaField.name field, type field, constraints field)) (fields' table),
      indexes table)"

section \<open>scripts/schema-generator.ts: cleaning the completion text\<close>

text \<open>
  A JavaScript string is a sequence of UTF-16 code units. The completion text is modelled
  over \<^typ>\<open>char\<close>, read as the code units U+0000 to U+00FF. On that range the regexp
  class \<^verbatim>\<open>\s\<close> and \<^verbatim>\<open>trim()\<close> know the same seven characters.
\<close>

definition white_space :: "char \<Rightarrow> bool" where
  "white_space c \<longleftrightarrow>
     c \<in> set [CHR 0x09, CHR 0x0A, CHR 0x0B, CHR 0x0C, CHR 0x0D, CHR 0x20, CHR 0xA0]"

definition lower_case :: "char \<Rightarrow> bool" where
  "lower_case c \<longleftrightarrow> c \<in> set ''abcdefghijklmnopqrstuvwxyz''"

text \<open>
  One match of \<^verbatim>\<open>/```[a-z]*\n|\n```/\<close> at the head of the text; the result is the
  text behind the match. The greedy \<^verbatim>\<open>[a-z]*\<close> takes every lower-case letter, and
  giving letters back cannot make the line break match.
\<close>

definition fence :: "string \<Rightarrow> string option" where
  "fence s =
     (if take 3 s = ''```'' then
        (case dropWhile lower_case (drop 3 s) of
           [] \<Rightarrow> None
         | c # rest \<Rightarrow> if c = CHR 0x0A then Some rest else None)
      else if take 4 s = CHR 0x0A # ''```'' then Some (drop 4 s)
      else None)"

lemma fence_shorter:
  assumes "fence s = Some rest"
  shows "length rest < length s"
proof (cases "take 3 s = ''```''")
  case True
  with assms obtain c where "dropWhile lower_case (drop 3 s) = c # rest"
    by (auto simp: fence_def split: list.splits if_splits)
  with length_dropWhile_le [of lower_case "drop 3 s"] show ?thesis by simp
next
  case False
  with assms have t: "take 4 s = CHR 0x0A # ''```''" and r: "rest = drop 4 s"
    by (auto simp: fence_def split: if_splits)
  from t have "length (take 4 s) = 4" by simp
  then have "4 \<le> length s" by simp
  with r show ?thesis by simp
qed

text \<open>\<^verbatim>\<open>.replace(/```[a-z]*\n|\n```/g, '')\<close>: every match, left to right, is removed.\<close>

function strip_fences :: "string \<Rightarrow> string" where
  "strip_fences [] = []"
| "strip_fences (c # cs) =
     (case fence (c # cs) of
        Some rest \<Rightarrow> strip_fences rest
      | None \<Rightarrow> c # strip_fences cs)"
  by pat_completeness auto
termination
  by (relation "measure length") (auto dest: fence_shorter)

text \<open>\<^verbatim>\<open>.replace(/\n/g, '')\<close>\<close>

definition remove_newlines :: "string \<Rightarrow> string" where
  "remove_newlines s = filter (\<lambda>c. c \<noteq> CHR 0x0A) s"

text \<open>\<^verbatim>\<open>.replace(/\s+/g, ' ')\<close>: every maximal run of white space becomes one space.\<close>

function collapse_spaces :: "string \<Rightarrow> string" where
  "collapse_spaces [] = []"
| "collapse_spaces (c # cs) =
     (if white_space c then CHR '' '' # collapse_spaces (dropWhile white_space cs)
      else c # collapse_spaces cs)"
  by pat_completeness auto
termination
  by (relation "measure length") (auto simp: length_dropWhile_le le_imp_less_Suc)

definition trim :: "string \<Rightarrow> string" where
  "trim s = rev (dropWhile white_space (rev (dropWhile white_space s)))"

definition clean :: "string \<Rightarrow> string" where
  "clean response = trim (collapse_spaces (remove_newlines (strip_fences response)))"

text \<open>
  \<^verbatim>\<open>cleanedResponse.match(/\{.*\}/)\<close>: the leftmost opening brace behind which, on the
  same line, a closing brace follows; the greedy \<^verbatim>\<open>.*\<close> ends the match at the last
  closing brace of that line. The dot refuses the line terminators.
\<close>

definition line_terminator :: "char \<Rightarrow> bool" where
  "line_terminator c \<longleftrightarrow> c = CHR 0x0A \<or> c = CHR 0x0D"

fun match_object :: "string \<Rightarrow> string option" where
  "match_object [] = None"
| "match_object (c # cs) =
     (if c = CHR ''{'' then
        (let line = takeWhile (\<lambda>c. \<not> line_terminator c) cs in
         if CHR ''}'' \<in> set line
         then Some (c # rev (dropWhile (\<lambda>c. c \<noteq> CHR ''}'') (rev line)))
         else match_object cs)
      else match_object cs)"

section \<open>\<^verbatim>\<open>JSON.parse\<close>\<close>

text \<open>
  The values \<^verbatim>\<open>JSON.parse\<close> builds. A string is a list of code units, since an escape
  \<^verbatim>\<open>\uXXXX\<close> denotes any of them. A number keeps its source text; JavaScript holds
  the binary64 value nearest to it. An object keeps its members in source order; a
  later member of the same name overrides an earlier one when the property is read.
\<close>

type_synonym code_units = "nat list"

definition code_units :: "string \<Rightarrow> code_units" where
  "code_units s = map of_char s"

datatype json =
  JNull
| JBool bool
| JNumber string
| JString code_units
| JArray "json list"
| JObject "(code_units \<times> json) list"

datatype token =
  LBrace | RBrace | LBracket | RBracket | Colon | Comma
| TString code_units | TNumber string | TTrue | TFalse | TNull

definition json_space :: "char \<Rightarrow> bool" where
  "json_space c \<longleftrightarrow> c \<in> set [CHR 0x20, CHR 0x09, CHR 0x0A, CHR 0x0D]"

definition digit :: "char \<Rightarrow> bool" where
  "digit c \<longleftrightarrow> c \<in> set ''0123456789''"

definition hex_value :: "char \<Rightarrow> nat option" where
  "hex_value c =
     (if c \<in> set ''0123456789'' then Some (of_char c - 48)
      else if c \<in> set ''abcdef'' then Some (of_char c - 87)
      else if c \<in> set ''ABCDEF'' then Some (of_char c - 55)
      else None)"

definition hex4 :: "string \<Rightarrow> nat option" where
  "hex4 s =
     (case map hex_value s of
        [Some a, Some b, Some c, Some d] \<Rightarrow> Some (((a * 16 + b) * 16 + c) * 16 + d)
      | _ \<Rightarrow> None)"

definition escape :: "char \<Rightarrow> nat option" where
  "escape c =
     (if c = CHR 0x22 then Some 0x22
      else if c = CHR 0x5C then Some 0x5C
      else if c = CHR ''/'' then Some 0x2F
      else if c = CHR ''b'' then Some 0x08
      else if c = CHR ''f'' then Some 0x0C
      else if c = CHR ''n'' then Some 0x0A
      else if c = CHR ''r'' then Some 0x0D
      else if c = CHR ''t'' then Some 0x09
      else None)"

text \<open>
  The characters of a string behind its opening quote, up to the closing quote; the
  result is the string and the text behind it.
\<close>

fun lex_string :: "string \<Rightarrow> (code_units \<times> string) option" where
  "lex_string [] = None"
| "lex_string (c # cs) =
     (if c = CHR 0x22 then Some ([], cs)
      else if c = CHR 0x5C then
        (case cs of
           [] \<Rightarrow> None
         | e # rest \<Rightarrow>
             if e = CHR ''u'' then
               (case hex4 (take 4 rest) of
                  None \<Rightarrow> None
                | Some u \<Rightarrow>
                    (case lex_string (drop 4 rest) of
                       None \<Rightarrow> None
                     | Some (str, rest') \<Rightarrow> Some (u # str, rest')))
             else
               (case escape e of
                  None \<Rightarrow> None
                | Some u \<Rightarrow>
                    (case lex_string rest of
                       None \<Rightarrow> None
                     | Some (str, rest') \<Rightarrow> Some (u # str, rest'))))
      else if (of_char c :: nat) < 0x20 then None
      else
        (case lex_string cs of
           None \<Rightarrow> None
         | Some (str, rest') \<Rightarrow> Some (of_char c # str, rest')))"

text \<open>
  A number: an optional minus, \<^verbatim>\<open>0\<close> or a digit string without leading zero, an
  optional fraction, an optional exponent. The result is its text and the text behind.
\<close>

definition lex_digits :: "string \<Rightarrow> (string \<times> string) option" where
  "lex_digits s = (if takeWhile digit s = [] then None
                   else Some (takeWhile digit s, dropWhile digit s))"

definition lex_int :: "string \<Rightarrow> (string \<times> string) option" where
  "lex_int s =
     (case s of
        [] \<Rightarrow> None
      | c # cs \<Rightarrow> if c = CHR ''0'' then Some (''0'', cs) else lex_digits s)"

definition lex_frac :: "string \<Rightarrow> (string \<times> string) option" where
  "lex_frac s =
     (case s of
        [] \<Rightarrow> Some ([], s)
      | c # cs \<Rightarrow>
          if c = CHR ''.'' then
            (case lex_digits cs of None \<Rightarrow> None | Some (ds, rest) \<Rightarrow> Some (c # ds, rest))
          else Some ([], s))"

definition lex_exp :: "string \<Rightarrow> (string \<times> string) option" where
  "lex_exp s =
     (case s of
        [] \<Rightarrow> Some ([], s)
      | c # cs \<Rightarrow>
          if c = CHR ''e'' \<or> c = CHR ''E'' then
            (case cs of
               [] \<Rightarrow> None
             | sg # cs' \<Rightarrow>
                 if sg = CHR ''+'' \<or> sg = CHR ''-'' then
                   (case lex_digits cs' of
                      None \<Rightarrow> None
                    | Some (ds, rest) \<Rightarrow> Some (c # sg # ds, rest))
                 else
                   (case lex_digits cs of
                      None \<Rightarrow> None
                    | Some (ds, rest) \<Rightarrow> Some (c # ds, rest)))
          else Some ([], s))"

definition lex_number :: "string \<Rightarrow> (string \<times> string) option" where
  "lex_number s =
     (let (sign, s1) = (case s of
                          [] \<Rightarrow> ([], s)
                        | c # cs \<Rightarrow> if c = CHR ''-'' then ([c], cs) else ([], s))
      in case lex_int s1 of
           None \<Rightarrow> None
         | Some (i, s2) \<Rightarrow>
             (case lex_frac s2 of
                None \<Rightarrow> None
              | Some (f, s3) \<Rightarrow>
                  (case lex_exp s3 of
                     None \<Rightarrow> None
                   | Some (e, s4) \<Rightarrow> Some (sign @ i @ f @ e, s4))))"

lemma lex_string_shorter: "lex_string s = Some (str, rest) \<Longrightarrow> length rest < length s"
proof (induction s arbitrary: str rest rule: lex_string.induct)
  case 1
  then show ?case by simp
next
  case (2 c cs)
  show ?case
  proof (cases "c = CHR 0x22")
    case True
    with "2.prems" show ?thesis by simp
  next
    case quote: False
    show ?thesis
    proof (cases "c = CHR 0x5C")
      case False
      with quote "2.prems" obtain str' where "lex_string cs = Some (str', rest)"
        by (auto split: if_splits option.splits)
      with "2.IH"(3) [of str' rest] quote False "2.prems" show ?thesis
        by (auto split: if_splits)
    next
      case True
      with quote "2.prems" obtain e rest0 where cs: "cs = e # rest0"
        by (cases cs) auto
      show ?thesis
      proof (cases "e = CHR ''u''")
        case u: True
        with quote True cs "2.prems" obtain n str' where
          "hex4 (take 4 rest0) = Some n" "lex_string (drop 4 rest0) = Some (str', rest)"
          by (auto split: option.splits)
        with "2.IH"(1) [OF quote True cs u, of n str' rest] cs show ?thesis by simp
      next
        case nu: False
        with quote True cs "2.prems" obtain n str' where
          "escape e = Some n" "lex_string rest0 = Some (str', rest)"
          by (auto split: option.splits)
        with "2.IH"(2) [OF quote True cs nu, of n str' rest] cs show ?thesis by simp
      qed
    qed
  qed
qed

lemma lex_digits_shorter: "lex_digits s = Some (ds, rest) \<Longrightarrow> length rest \<le> length s"
  using length_dropWhile_le [of digit s] by (auto simp: lex_digits_def split: if_splits)

lemma lex_int_shorter:
  assumes "lex_int s = Some (i, rest)"
  shows "length rest < length s"
proof (cases s)
  case Nil
  with assms show ?thesis by (simp add: lex_int_def)
next
  case (Cons c cs)
  show ?thesis
  proof (cases "c = CHR ''0''")
    case True
    with assms Cons show ?thesis by (simp add: lex_int_def)
  next
    case False
    with assms Cons have d: "takeWhile digit s \<noteq> []" and r: "rest = dropWhile digit s"
      by (auto simp: lex_int_def lex_digits_def split: if_splits)
    have "length (takeWhile digit s) + length (dropWhile digit s) = length s"
      by (metis length_append takeWhile_dropWhile_id)
    with d r show ?thesis by (cases "takeWhile digit s") simp_all
  qed
qed

lemma lex_number_shorter:
  assumes "lex_number (c # cs) = Some (num, rest)"
  shows "length rest < length (c # cs)"
proof -
  obtain sign s1 where s1:
    "(case c # cs of [] \<Rightarrow> ([], c # cs)
      | c' # cs' \<Rightarrow> if c' = CHR ''-'' then ([c'], cs') else ([], c # cs)) = (sign, s1)"
    by (cases "c = CHR ''-''") auto
  then have l1: "length s1 \<le> length (c # cs)" by (auto split: if_splits)
  from assms s1 obtain i s2 f s3 e where
    i: "lex_int s1 = Some (i, s2)" and f: "lex_frac s2 = Some (f, s3)" and
    e: "lex_exp s3 = Some (e, rest)"
    by (auto simp: lex_number_def split: option.splits if_splits)
  from i have l2: "length s2 < length s1"
    by (rule lex_int_shorter)
  from f have l3: "length s3 \<le> length s2"
    by (auto simp: lex_frac_def split: list.splits if_splits option.splits
        dest: lex_digits_shorter)
  from e have l4: "length rest \<le> length s3"
    by (auto simp: lex_exp_def split: list.splits if_splits option.splits
        dest: lex_digits_shorter)
  from l1 l2 l3 l4 show ?thesis by simp
qed

text \<open>The tokens of a JSON text; \<open>None\<close> where no token starts.\<close>

function lex :: "string \<Rightarrow> token list option" where
  "lex [] = Some []"
| "lex (c # cs) =
     (if json_space c then lex cs
      else if c = CHR ''{'' then map_option ((#) LBrace) (lex cs)
      else if c = CHR ''}'' then map_option ((#) RBrace) (lex cs)
      else if c = CHR ''['' then map_option ((#) LBracket) (lex cs)
      else if c = CHR '']'' then map_option ((#) RBracket) (lex cs)
      else if c = CHR '':'' then map_option ((#) Colon) (lex cs)
      else if c = CHR '','' then map_option ((#) Comma) (lex cs)
      else if c = CHR 0x22 then
        (case lex_string cs of
           None \<Rightarrow> None
         | Some (str, rest) \<Rightarrow> map_option ((#) (TString str)) (lex rest))
      else if c = CHR ''-'' \<or> digit c then
        (case lex_number (c # cs) of
           None \<Rightarrow> None
         | Some (num, rest) \<Rightarrow> map_option ((#) (TNumber num)) (lex rest))
      else if take 4 (c # cs) = ''true'' then map_option ((#) TTrue) (lex (drop 4 (c # cs)))
      else if take 5 (c # cs) = ''false'' then map_option ((#) TFalse) (lex (drop 5 (c # cs)))
      else if take 4 (c # cs) = ''null'' then map_option ((#) TNull) (lex (drop 4 (c # cs)))
      else None)"
  by pat_completeness auto
termination
proof (relation "measure length", goal_cases)
  case (9 c cs x2 str rest)
  then show ?case using lex_string_shorter [of cs str rest] by simp
next
  case (10 c cs x2 num rest)
  then show ?case using lex_number_shorter [of c cs num rest] by simp
qed simp_all

text \<open>
  The grammar of JSON values over the tokens, by recursive descent; a result carries
  the tokens left over. \<open>parse_elements\<close> reads the elements of a non-empty array up to
  its closing bracket, \<open>parse_members\<close> the members of a non-empty object up to its
  closing brace. The test that a value has consumed tokens never fails
  (\<open>parse_value_shorter\<close>); it makes the recursion well-founded.
\<close>

function (sequential)
  parse_value :: "token list \<Rightarrow> (json \<times> token list) option" and
  parse_elements :: "token list \<Rightarrow> (json list \<times> token list) option" and
  parse_members :: "token list \<Rightarrow> ((code_units \<times> json) list \<times> token list) option"
where
  "parse_value (TNull # ts) = Some (JNull, ts)"
| "parse_value (TTrue # ts) = Some (JBool True, ts)"
| "parse_value (TFalse # ts) = Some (JBool False, ts)"
| "parse_value (TNumber num # ts) = Some (JNumber num, ts)"
| "parse_value (TString str # ts) = Some (JString str, ts)"
| "parse_value (LBracket # RBracket # ts) = Some (JArray [], ts)"
| "parse_value (LBracket # ts) =
     (case parse_elements ts of
        None \<Rightarrow> None
      | Some (vs, rest) \<Rightarrow> Some (JArray vs, rest))"
| "parse_value (LBrace # RBrace # ts) = Some (JObject [], ts)"
| "parse_value (LBrace # ts) =
     (case parse_members ts of
        None \<Rightarrow> None
      | Some (ms, rest) \<Rightarrow> Some (JObject ms, rest))"
| "parse_value _ = None"
| "parse_elements ts =
     (case parse_value ts of
        None \<Rightarrow> None
      | Some (v, rest) \<Rightarrow>
          if length rest < length ts then
            (case rest of
               Comma # rest' \<Rightarrow>
                 (case parse_elements rest' of
                    None \<Rightarrow> None
                  | Some (vs, rest'') \<Rightarrow> Some (v # vs, rest''))
             | RBracket # rest' \<Rightarrow> Some ([v], rest')
             | _ \<Rightarrow> None)
          else None)"
| "parse_members (TString key # Colon # ts) =
     (case parse_value ts of
        None \<Rightarrow> None
      | Some (v, rest) \<Rightarrow>
          if length rest < length ts then
            (case rest of
               Comma # rest' \<Rightarrow>
                 (case parse_members rest' of
                    None \<Rightarrow> None
                  | Some (ms, rest'') \<Rightarrow> Some ((key, v) # ms, rest''))
             | RBrace # rest' \<Rightarrow> Some ([(key, v)], rest')
             | _ \<Rightarrow> None)
          else None)"
| "parse_members _ = None"
  by pat_completeness auto
termination
  by (relation "measure (\<lambda>x. case x of
                   Inl ts \<Rightarrow> 2 * length ts
                 | Inr (Inl ts) \<Rightarrow> 2 * length ts + 1
                 | Inr (Inr ts) \<Rightarrow> 2 * length ts + 1)")
    auto

declare parse_elements.simps [simp del] parse_members.simps(1) [simp del]

lemma parse_shorter:
  "parse_value ts = Some (v, rest) \<Longrightarrow> length rest < length ts"
  "parse_elements ts = Some (vs, rest) \<Longrightarrow> length rest < length ts"
  "parse_members ts = Some (ms, rest) \<Longrightarrow> length rest < length ts"
proof (induction ts and ts and ts arbitrary: v rest and vs rest and ms rest
    rule: parse_value_parse_elements_parse_members.induct)
  case (11 ts)
  from "11.prems" obtain x r where v: "parse_value ts = Some (x, r)" and r: "length r < length ts"
    and k: "(case r of
               Comma # rest' \<Rightarrow>
                 (case parse_elements rest' of
                    None \<Rightarrow> None
                  | Some (vs, rest'') \<Rightarrow> Some (x # vs, rest''))
             | RBracket # rest' \<Rightarrow> Some ([x], rest')
             | _ \<Rightarrow> None) = Some (vs, rest)"
    by (subst (asm) parse_elements.simps) (auto split: option.splits if_splits)
  show ?case
  proof (cases r)
    case Nil
    with k show ?thesis by simp
  next
    case (Cons t rest')
    show ?thesis
    proof (cases "t = Comma")
      case True
      with k Cons obtain vs' where "parse_elements rest' = Some (vs', rest)"
        by (auto split: option.splits)
      from "11.IH"(2) [OF v refl r Cons True this] r Cons show ?thesis by simp
    next
      case False
      with k Cons r show ?thesis by (cases t) auto
    qed
  qed
next
  case (12 key ts)
  from "12.prems" obtain x r where v: "parse_value ts = Some (x, r)" and r: "length r < length ts"
    and k: "(case r of
               Comma # rest' \<Rightarrow>
                 (case parse_members rest' of
                    None \<Rightarrow> None
                  | Some (ms, rest'') \<Rightarrow> Some ((key, x) # ms, rest''))
             | RBrace # rest' \<Rightarrow> Some ([(key, x)], rest')
             | _ \<Rightarrow> None) = Some (ms, rest)"
    by (subst (asm) parse_members.simps(1)) (auto split: option.splits if_splits)
  show ?case
  proof (cases r)
    case Nil
    with k show ?thesis by simp
  next
    case (Cons t rest')
    show ?thesis
    proof (cases "t = Comma")
      case True
      with k Cons obtain ms' where "parse_members rest' = Some (ms', rest)"
        by (auto split: option.splits)
      from "12.IH"(2) [OF v refl r Cons True this] r Cons show ?thesis by simp
    next
      case False
      with k Cons r show ?thesis by (cases t) auto
    qed
  qed
qed (auto split: option.splits)

lemmas parse_value_shorter = parse_shorter(1)

text \<open>\<^verbatim>\<open>JSON.parse(text)\<close>: one value and nothing behind it; \<open>None\<close> is the \<^verbatim>\<open>SyntaxError\<close>.\<close>

definition JSON_parse :: "string \<Rightarrow> json option" where
  "JSON_parse text =
     (case lex text of
        None \<Rightarrow> None
      | Some ts \<Rightarrow>
          (case parse_value ts of
             Some (v, []) \<Rightarrow> Some v
           | _ \<Rightarrow> None))"

text \<open>
  What a JavaScript expression may evaluate to here: \<^verbatim>\<open>undefined\<close>, or a value
  built by \<^verbatim>\<open>JSON.parse\<close>.
\<close>

datatype js_value = Undefined | Value json

text \<open>
  The property access \<^verbatim>\<open>schema.tables\<close>. An object has the property when a member is
  named so; arrays, strings, numbers and booleans have no such property and give
  \<^verbatim>\<open>undefined\<close>; on \<^verbatim>\<open>null\<close> the access throws a \<^verbatim>\<open>TypeError\<close>, which is \<open>None\<close>.
\<close>

fun tables_of :: "json \<Rightarrow> js_value option" where
  "tables_of JNull = None"
| "tables_of (JObject members) =
     Some (case map_of (rev members) (code_units ''tables'') of
             None \<Rightarrow> Undefined
           | Some v \<Rightarrow> Value v)"
| "tables_of _ = Some Undefined"

section \<open>scripts/schema-generator.ts: \<^verbatim>\<open>generateSchema\<close>\<close>

text \<open>
  What \<^verbatim>\<open>generateSchema\<close> returns: the value of \<^verbatim>\<open>schema.tables\<close>, which is of type
  \<^verbatim>\<open>any\<close> and is not checked against \<^verbatim>\<open>TableSchema[]\<close>, or the constant
  \<^verbatim>\<open>mockSchema\<close>.
\<close>

datatype schema_value = Parsed js_value | Static "TableSchema list"

text \<open>The \<^verbatim>\<open>try\<close> block and its \<^verbatim>\<open>catch\<close> clause (lines 78 to 105).\<close>

definition parse_response :: "string \<Rightarrow> schema_value" where
  "parse_response response =
     (let cleanedResponse = clean response in
      case match_object cleanedResponse of
        None \<Rightarrow> Static mockSchema
      | Some jsonStr \<Rightarrow>
          (case JSON_parse jsonStr of
             None \<Rightarrow> Static mockSchema
           | Some schema \<Rightarrow>
               (case tables_of schema of
                  None \<Rightarrow> Static mockSchema
                | Some tables \<Rightarrow> Parsed tables)))"

text \<open>
  \<^verbatim>\<open>generateSchema\<close> from the completion on: \<open>content\<close> is
  \<^verbatim>\<open>completion.choices[0]?.message?.content\<close>, with \<open>None\<close> for \<^verbatim>\<open>undefined\<close> and
  \<^verbatim>\<open>null\<close>. The request to the completion API before it is not modelled.
\<close>

definition generateSchema :: "string option \<Rightarrow> schema_value completion" where
  "generateSchema content =
     (case content of
        None \<Rightarrow> Throw (ErrorInstance ''No response from Groq'')
      | Some response \<Rightarrow>
          if response = [] then Throw (ErrorInstance ''No response from Groq'')
          else Normal (parse_response response))"

text \<open>The number of places of a text at which a given word starts.\<close>

fun occurrences :: "string \<Rightarrow> string \<Rightarrow> nat" where
  "occurrences word [] = 0"
| "occurrences word (c # cs) =
     (if take (length word) (c # cs) = word then 1 else 0) + occurrences word cs"

section \<open>scripts/benchmark.ts: grouping the results\<close>

text \<open>The key of \<^verbatim>\<open>printResults\<close>: the template \<^verbatim>\<open>${result.database}-${result.operation}\<close>.\<close>

definition group_key :: "BenchmarkResult \<Rightarrow> string" where
  "group_key result = database result @ ''-'' @ operation result"

text \<open>
  The accumulator object of the \<^verbatim>\<open>reduce\<close>, as the list of its properties in
  insertion order, which is the order \<^verbatim>\<open>Object.entries\<close> follows: a key holds a hyphen
  and so is neither an array index nor the name of a property that the empty object
  inherits. One step creates the array of a key not yet present and pushes the result
  onto the array of its key.
\<close>

fun push_into ::
  "string \<Rightarrow> BenchmarkResult \<Rightarrow> (string \<times> BenchmarkResult list) list \<Rightarrow>
   (string \<times> BenchmarkResult list) list" where
  "push_into key result [] = [(key, [result])]"
| "push_into key result ((k, rs) # acc) =
     (if k = key then (k, rs @ [result]) # acc else (k, rs) # push_into key result acc)"

definition groupedResults :: "BenchmarkResult list \<Rightarrow> (string \<times> BenchmarkResult list) list" where
  "groupedResults rs =
     foldl (\<lambda>acc result. push_into (group_key result) result acc) [] rs"

text \<open>
  The grouping as the specification words it: the keys in the order in which they are
  first seen, and for a key the entries that carry it, in their order.
\<close>

definition first_seen :: "'a list \<Rightarrow> 'a list" where
  "first_seen xs = rev (remdups (rev xs))"

definition bucket :: "string \<Rightarrow> BenchmarkResult list \<Rightarrow> BenchmarkResult list" where
  "bucket key rs = filter (\<lambda>r. group_key r = key) rs"

section \<open>JavaScript numbers\<close>

text \<open>
  The arithmetic of \<^verbatim>\<open>printResults\<close> is that of binary64 numbers: every operation yields
  the number nearest to the exact result, a tie going to the even significand. A finite
  number is held as the rational it denotes. \<open>exponent x\<close> is the integer \<open>e\<close> with
  \<open>2\<^sup>e \<le> \<bar>x\<bar> < 2\<^sup>e\<^sup>+\<^sup>1\<close>, and \<open>binary64\<close> rounds to 53 significant bits at that
  exponent. The exponent is not bounded here: the model is binary64 for magnitudes from
  \<open>2\<^sup>-\<^sup>1\<^sup>0\<^sup>2\<^sup>2\<close> up to \<open>2\<^sup>1\<^sup>0\<^sup>2\<^sup>4\<close>, which sums of millisecond counts and the
  quotients below do not leave.
\<close>

definition round_half_even :: "rat \<Rightarrow> int" where
  "round_half_even x =
     (let n = \<lfloor>x\<rfloor>; f = x - of_int n
      in if f < 1 / 2 then n else if 1 / 2 < f then n + 1 else if even n then n else n + 1)"

definition exponent :: "rat \<Rightarrow> int" where
  "exponent x =
     (if 1 \<le> \<bar>x\<bar> then bitlen \<lfloor>\<bar>x\<bar>\<rfloor> - 1 else - bitlen (\<lceil>1 / \<bar>x\<bar>\<rceil> - 1))"

definition binary64 :: "rat \<Rightarrow> rat" where
  "binary64 x =
     (if x = 0 then 0
      else let ulp = 2 powi (exponent x - 52)
           in of_int (round_half_even (x / ulp)) * ulp)"

text \<open>A number: a finite binary64 value or \<^verbatim>\<open>NaN\<close>, which is what 0 / 0 gives.\<close>

datatype number = Num rat | NaN

section \<open>scripts/benchmark.ts: the report\<close>

text \<open>\<^verbatim>\<open>results.reduce((sum, r) => sum + r.duration, 0)\<close>\<close>

definition sum_durations :: "BenchmarkResult list \<Rightarrow> rat" where
  "sum_durations rs = foldl (\<lambda>sum r. binary64 (sum + of_int (duration r))) 0 rs"

text \<open>
  The two quantities of a group \<open>rs\<close>, the \<^verbatim>\<open>results\<close> of the callback. The length of
  an array is an integer below
  \<open>2\<^sup>3\<^sup>2\<close> and needs no rounding. For the empty array both quotients are 0 / 0.
\<close>

definition avgDuration :: "BenchmarkResult list \<Rightarrow> number" where
  "avgDuration rs =
     (if rs = [] then NaN
      else Num (binary64 (sum_durations rs / of_nat (length rs))))"

definition successRate :: "BenchmarkResult list \<Rightarrow> number" where
  "successRate rs =
     (if rs = [] then NaN
      else Num (binary64
             (binary64 (of_nat (length (filter success rs)) / of_nat (length rs)) * 100)))"

text \<open>\<^verbatim>\<open>successRate < 100\<close>; a comparison with \<^verbatim>\<open>NaN\<close> is false.\<close>

fun below_100 :: "number \<Rightarrow> bool" where
  "below_100 (Num x) = (x < 100)"
| "below_100 NaN = False"

text \<open>
  What \<^verbatim>\<open>printResults\<close> logs for one group, before \<^verbatim>\<open>toFixed(2)\<close> formats the two
  numbers: the key, the average duration, the success rate, and the error messages of
  the failed entries when the rate is below 100.
\<close>

record group_report =
  report_key :: string
  average_duration :: number
  success_rate :: number
  reported_errors :: "string option list option"

fun report_group :: "string \<times> BenchmarkResult list \<Rightarrow> group_report" where
  "report_group (key, rs) =
     \<lparr>report_key = key, average_duration = avgDuration rs, success_rate = successRate rs,
      reported_errors =
        (if below_100 (successRate rs)
         then Some (map error (filter (\<lambda>r. \<not> success r) rs))
         else None)\<rparr>"

definition printResults :: "DatabaseBenchmark \<Rightarrow> group_report list" where
  "printResults b = map report_group (groupedResults (results b))"

text \<open>
  The quantities of the specification, in exact arithmetic: the arithmetic mean of the
  durations of a group, and the percentage (K/N) \<times> 100 of its successful entries.
\<close>

definition mean_duration :: "BenchmarkResult list \<Rightarrow> rat" where
  "mean_duration rs = of_int (\<Sum>r\<leftarrow>rs. duration r) / of_nat (length rs)"

definition success_percentage :: "BenchmarkResult list \<Rightarrow> rat" where
  "success_percentage rs = of_nat (length (filter success rs)) / of_nat (length rs) * 100"

text \<open>An entry as the timer records it for an action that took \<open>ms\<close> milliseconds.\<close>

definition recorded :: "string \<Rightarrow> string \<Rightarrow> bool \<Rightarrow> int \<Rightarrow> BenchmarkResult" where
  "recorded db op ok ms =
     \<lparr>database = db, operation = op, duration = ms, latency = (if ok then ms else 0),
      success = ok, error = (if ok then None else Some ''Unknown error'')\<rparr>"

section \<open>The operation timer: one entry per invocation\<close>










section \<open>The operation timer: what the appended entry records\<close>

text \<open>
  Claim C3, as the code has it. An action that raises a value the \<^verbatim>\<open>catch\<close> clause can
  inspect yields an entry with success = false and an error message, which is the
  message of the thrown \<^verbatim>\<open>Error\<close> as it is, or \<^verbatim>\<open>Unknown error\<close> for a thrown value that
  is no \<^verbatim>\<open>Error\<close>; the message is non-empty unless the thrown \<^verbatim>\<open>Error\<close> carries the empty
  message. No other raising action has an entry appended. A completing action yields an
  entry with success = true and no error message.
\<close>

theorem measureOperation_success_and_error:
  "(fn (now b) = Rejected err t \<and> inspectable err \<longrightarrow>
      (\<exists>r. measureOperation db op fn b = Normal \<lparr>results = results b @ [r], now = t\<rparr> \<and>
           success r = False \<and>
           (\<forall>message. err = ErrorInstance message \<longrightarrow> error r = Some message) \<and>
           (err = NonError \<longrightarrow> error r = Some ''Unknown error'') \<and>
           (err \<noteq> ErrorInstance [] \<longrightarrow> error r \<noteq> None \<and> error r \<noteq> Some []))) \<and>
   (fn (now b) = Rejected err t \<and> \<not> inspectable err \<longrightarrow>
      (\<forall>b'. measureOperation db op fn b \<noteq> Normal b')) \<and>
   (fn (now b) = Fulfilled t \<longrightarrow>
      (\<exists>r. measureOperation db op fn b = Normal \<lparr>results = results b @ [r], now = t\<rparr> \<and>
           success r = True \<and> error r = None))"
  by (cases err) (auto simp: measureOperation_def Let_def)

theorem measureOperation_success_and_error_witness:
  "(\<exists>r. measureOperation ''Supabase'' ''Simple Query''
          (\<lambda>start. Rejected (ErrorInstance ''relation does not exist'') (start + 8)) fresh =
          Normal \<lparr>results = results fresh @ [r], now = 8\<rparr> \<and>
        success r = False \<and> error r = Some ''relation does not exist'') \<and>
   (\<exists>r. measureOperation ''Supabase'' ''Simple Query'' (answers_after 8) fresh =
          Normal \<lparr>results = results fresh @ [r], now = 8\<rparr> \<and>
        success r = True \<and> error r = None) \<and>
   (\<forall>b'. measureOperation ''Supabase'' ''Simple Query''
          (\<lambda>start. Rejected (Uninspectable NonError) (start + 8)) fresh \<noteq> Normal b')"
  using
    measureOperation_success_and_error
      [of "\<lambda>start. Rejected (ErrorInstance ''relation does not exist'') (start + 8)" fresh
          "ErrorInstance ''relation does not exist''" 8 "''Supabase''" "''Simple Query''"]
    measureOperation_success_and_error
      [of "answers_after 8" fresh NonError 8 "''Supabase''" "''Simple Query''"]
    measureOperation_success_and_error
      [of "\<lambda>start. Rejected (Uninspectable NonError) (start + 8)" fresh
          "Uninspectable NonError" 8 "''Supabase''" "''Simple Query''"]
  by (auto simp add: answers_after_def fresh_def)

text \<open>
  Claim C3, as stated, fails for an action that throws \<^verbatim>\<open>new Error()\<close>: the entry
  records the empty message.
\<close>

theorem measureOperation_empty_message_counterexample:
  "measureOperation ''Neon'' ''Simple Query'' (\<lambda>start. Rejected (ErrorInstance []) (start + 12))
     fresh =
   Normal \<lparr>results = [\<lparr>database = ''Neon'', operation = ''Simple Query'', duration = 12,
                        latency = 0, success = False, error = Some []\<rparr>],
           now = 12\<rparr>"
  by (simp add: measureOperation_def fresh_def)

text \<open>
  Claim C10. The entry appended for an action that raises a value the \<^verbatim>\<open>catch\<close> clause
  can inspect has latency 0, while its duration is the time measured up to the failure;
  and for a thrown value that is no \<^verbatim>\<open>Error\<close> instance its error message is the
  literal \<^verbatim>\<open>Unknown error\<close>. Every entry appended for a raising action has latency 0 and
  that duration.
\<close>

theorem measureOperation_failure_latency_zero:
  "fn (now b) = Rejected err t \<Longrightarrow>
   (inspectable err \<longrightarrow>
      (\<exists>r. measureOperation db op fn b = Normal \<lparr>results = results b @ [r], now = t\<rparr> \<and>
           latency r = 0 \<and> duration r = t - now b \<and>
           (err = NonError \<longrightarrow> error r = Some ''Unknown error''))) \<and>
   (\<forall>b'. measureOperation db op fn b = Normal b' \<longrightarrow>
      (\<exists>r. b' = \<lparr>results = results b @ [r], now = t\<rparr> \<and>
           latency r = 0 \<and> duration r = t - now b \<and>
           (err = NonError \<longrightarrow> error r = Some ''Unknown error'')))"
  by (cases err) (auto simp: measureOperation_def Let_def)

theorem measureOperation_failure_latency_zero_witness:
  "\<exists>r. measureOperation ''Supabase'' ''Write 10k rows'' (\<lambda>start. Rejected NonError (start + 1900))
         fresh = Normal \<lparr>results = results fresh @ [r], now = 1900\<rparr> \<and>
       latency r = 0 \<and> duration r = 1900 \<and> error r = Some ''Unknown error''"
  using measureOperation_failure_latency_zero
    [of "\<lambda>start. Rejected NonError (start + 1900)" fresh NonError 1900
        "''Supabase''" "''Write 10k rows''"]
  by (simp add: fresh_def)

section \<open>The workload runners: which backends are timed\<close>

lemma andThen_Normal:
  assumes "andThen m k = Normal y"
  obtains x where "m = Normal x" and "k x = Normal y"
  using assms by (cases m) auto

lemma measureOperation_labels:
  assumes "measureOperation db op fn b = Normal b'"
  shows "labels (results b') = labels (results b) @ [(db, op)]"
  using assms
  by (cases "fn (now b)") (auto simp: measureOperation_def Let_def labels_def split: sum.splits)

lemma runWriteTest_labels:
  assumes "runWriteTest env b = Normal b'"
  shows "labels (results b') = labels (results b) @
           [(''Neon'', ''Write 10k rows''), (''Supabase'', ''Write 10k rows''),
            (''MongoDB'', ''Write 10k rows'')]"
proof -
  from assms obtain b1 b2 where
    "measureOperation ''Neon'' ''Write 10k rows'' (neon_write env) b = Normal b1"
    "measureOperation ''Supabase'' ''Write 10k rows'' (supabase_write env) b1 = Normal b2"
    "measureOperation ''MongoDB'' ''Write 10k rows'' (mongodb_write env) b2 = Normal b'"
    unfolding runWriteTest_def by (elim andThen_Normal)
  then show ?thesis by (simp add: measureOperation_labels)
qed

lemma runReadTest_labels:
  assumes "runReadTest env b = Normal b'"
  shows "labels (results b') = labels (results b) @
           [(''Neon'', ''Simple Query''), (''Supabase'', ''Simple Query''),
            (''MongoDB'', ''Simple Query''), (''Neon'', ''Complex Query''),
            (''Supabase'', ''Complex Query''), (''MongoDB'', ''Complex Query'')]"
proof -
  from assms obtain b1 b2 b3 b4 b5 where
    "measureOperation ''Neon'' ''Simple Query'' (neon_simple_query env) b = Normal b1"
    "measureOperation ''Supabase'' ''Simple Query'' (supabase_simple_query env) b1 = Normal b2"
    "measureOperation ''MongoDB'' ''Simple Query'' (mongodb_simple_query env) b2 = Normal b3"
    "measureOperation ''Neon'' ''Complex Query'' (neon_complex_query env) b3 = Normal b4"
    "measureOperation ''Supabase'' ''Complex Query'' (supabase_complex_query env) b4 = Normal b5"
    "measureOperation ''MongoDB'' ''Complex Query'' (mongodb_complex_query env) b5 = Normal b'"
    unfolding runReadTest_def by (elim andThen_Normal)
  then show ?thesis by (simp add: measureOperation_labels)
qed

lemma runColdStartTest_labels:
  assumes "runColdStartTest env b = Normal b'"
  shows "labels (results b') = labels (results b) @
           [(''Neon'', ''Cold Start''), (''MongoDB'', ''Cold Start'')]"
proof -
  from assms obtain b1 where
    "measureOperation ''Neon'' ''Cold Start'' (neon_cold_start env) b = Normal b1"
    "measureOperation ''MongoDB'' ''Cold Start'' (mongodb_cold_start env) b1 = Normal b'"
    unfolding runColdStartTest_def by (elim andThen_Normal)
  then show ?thesis by (simp add: measureOperation_labels)
qed

text \<open>
  Claim C6 does not hold of the cold-start runner. With three healthy backends it times
  Neon and MongoDB and returns; no entry for Supabase is recorded, while the write and
  the read runner time all three backends in the order Neon, Supabase, MongoDB
  (\<open>runWriteTest_labels\<close>, \<open>runReadTest_labels\<close>).
\<close>

theorem runColdStartTest_times_two_backends:
  "runColdStartTest healthy_backends fresh =
   Normal \<lparr>results =
             [\<lparr>database = ''Neon'', operation = ''Cold Start'', duration = 150,
               latency = 150, success = True, error = None\<rparr>,
              \<lparr>database = ''MongoDB'', operation = ''Cold Start'', duration = 120,
               latency = 120, success = True, error = None\<rparr>],
           now = 270\<rparr>"
  by (simp add: runColdStartTest_def measureOperation_def healthy_backends_def
      answers_after_def fresh_def)

section \<open>Rendering a schema\<close>

lemma push_indexes_append: "push_indexes sqlStatements ixs = sqlStatements @ ixs"
  by (induction ixs arbitrary: sqlStatements) simp_all

lemma push_tables_append:
  "push_tables sqlStatements schema = sqlStatements @ statements_in_order schema"
  by (induction schema arbitrary: sqlStatements)
    (simp_all add: statements_in_order_def table_block_def create_table_statement_def
      push_indexes_append Let_def)

lemma length_statements_in_order:
  "length (statements_in_order schema) = (\<Sum>table\<leftarrow>schema. 1 + length (indexes table))"
  by (induction schema) (simp_all add: statements_in_order_def table_block_def)

lemma join_separated: "join sep parts = separated sep parts"
  by (induction sep parts rule: join.induct) simp_all

lemma column_separated:
  "column = (\<lambda>field. ''  '' @ SchemaField.name field @ '' '' @ type field @ '' '' @
                      separated '' '' (constraints field))"
  by (rule ext) (simp add: column_def join_separated)

lemma table_block_separated:
  "table_block =
     (\<lambda>table. (''\<newline>CREATE TABLE '' @ TableSchema.name table @ '' (\<newline>'' @
                separated '',\<newline>''
                  (map (\<lambda>field. ''  '' @ SchemaField.name field @ '' '' @ type field @ '' '' @
                                  separated '' '' (constraints field))
                     (fields' table)) @
                ''\<newline>);'') # indexes table)"
  by (rule ext)
    (simp only: table_block_def create_table_statement_def join_separated column_separated)

text \<open>
  Claim C8. The statements \<open>generateSQL\<close> builds are, table after table in the order of
  the schema, the \<^verbatim>\<open>CREATE TABLE\<close> statement of the table followed by the index strings
  of that table as they are and in their order. The column block of the statement is
  made of one column definition for each field of the table, in the order of the fields
  and separated by a comma and a line break; a column definition is the name, the type
  and the constraints of the field, in their order and separated by spaces. The text
  returned is made of these statements, in this order and separated by a blank line. So
  each table contributes one statement and one more for each of its index strings, and
  each field and each index string is consumed once.
\<close>

theorem generateSQL_consumes_in_order:
  "generateSQL schema = separated ''\<newline>\<newline>'' (push_tables [] schema) \<and>
   push_tables [] schema =
     concat (map (\<lambda>table.
       (''\<newline>CREATE TABLE '' @ TableSchema.name table @ '' (\<newline>'' @
        separated '',\<newline>''
          (map (\<lambda>field. ''  '' @ SchemaField.name field @ '' '' @ type field @ '' '' @
                          separated '' '' (constraints field))
             (fields' table)) @
        ''\<newline>);'') # indexes table) schema) \<and>
   length (push_tables [] schema) = (\<Sum>table\<leftarrow>schema. 1 + length (indexes table))"
proof (intro conjI)
  show "generateSQL schema = separated ''\<newline>\<newline>'' (push_tables [] schema)"
    by (simp only: generateSQL_def join_separated)
next
  have "push_tables [] schema = concat (map table_block schema)"
    by (simp add: push_tables_append statements_in_order_def)
  then show "push_tables [] schema =
     concat (map (\<lambda>table.
       (''\<newline>CREATE TABLE '' @ TableSchema.name table @ '' (\<newline>'' @
        separated '',\<newline>''
          (map (\<lambda>field. ''  '' @ SchemaField.name field @ '' '' @ type field @ '' '' @
                          separated '' '' (constraints field))
             (fields' table)) @
        ''\<newline>);'') # indexes table) schema)"
    by (simp only: table_block_separated)
next
  show "length (push_tables [] schema) = (\<Sum>table\<leftarrow>schema. 1 + length (indexes table))"
    using length_statements_in_order [of schema] by (simp add: push_tables_append)
qed

lemma column_rendered_part:
  assumes "(SchemaField.name field, type field, constraints field) =
           (SchemaField.name field', type field', constraints field')"
  shows "column field = column field'"
  using assms by (simp add: column_def)

lemma columns_rendered_part:
  assumes "map (\<lambda>field. (SchemaField.name field, type field, constraints field)) fs =
           map (\<lambda>field. (SchemaField.name field, type field, constraints field)) fs'"
  shows "map column fs = map column fs'"
  using assms
proof (induction fs arbitrary: fs')
  case Nil
  then show ?case by simp
next
  case (Cons field fs)
  then obtain field' rest where fs': "fs' = field' # rest" by (cases fs') auto
  from Cons.prems fs' have h: "(SchemaField.name field, type field, constraints field) =
      (SchemaField.name field', type field', constraints field')"
    and t: "map (\<lambda>field. (SchemaField.name field, type field, constraints field)) fs =
            map (\<lambda>field. (SchemaField.name field, type field, constraints field)) rest"
    by simp_all
  from column_rendered_part [OF h] Cons.IH [OF t] fs' show ?case by simp
qed

lemma table_block_rendered_part:
  assumes "rendered_part table = rendered_part table'"
  shows "table_block table = table_block table'"
proof -
  from assms have n: "TableSchema.name table = TableSchema.name table'"
    and i: "indexes table = indexes table'"
    and f: "map (\<lambda>field. (SchemaField.name field, type field, constraints field)) (fields' table) =
            map (\<lambda>field. (SchemaField.name field, type field, constraints field)) (fields' table')"
    by (simp_all add: rendered_part_def)
  from columns_rendered_part [OF f] n i show ?thesis
    by (simp add: table_block_def create_table_statement_def)
qed

lemma table_blocks_rendered_part:
  assumes "map rendered_part schema = map rendered_part schema'"
  shows "map table_block schema = map table_block schema'"
  using assms
proof (induction schema arbitrary: schema')
  case Nil
  then show ?case by simp
next
  case (Cons table schema)
  then obtain table' rest where s: "schema' = table' # rest" by (cases schema') auto
  from Cons.prems s have h: "rendered_part table = rendered_part table'"
    and t: "map rendered_part schema = map rendered_part rest" by simp_all
  from table_block_rendered_part [OF h] Cons.IH [OF t] s show ?case by simp
qed

text \<open>
  Claim C9. \<open>generateSQL\<close> reads nothing but its argument: two evaluations on the same
  schema give the same text. Of the schema it reads the table names, the names, types
  and constraints of the fields and the index strings, so that schemas which agree on
  these are rendered to the same text too.
\<close>

theorem generateSQL_deterministic:
  "(schema = schema' \<longrightarrow> generateSQL schema = generateSQL schema') \<and>
   (map rendered_part schema = map rendered_part schema' \<longrightarrow>
      generateSQL schema = generateSQL schema')"
proof (intro conjI impI)
  assume "schema = schema'"
  then show "generateSQL schema = generateSQL schema'" by simp
next
  assume "map rendered_part schema = map rendered_part schema'"
  then have "map table_block schema = map table_block schema'"
    by (rule table_blocks_rendered_part)
  then show "generateSQL schema = generateSQL schema'"
    by (simp add: generateSQL_def push_tables_append statements_in_order_def)
qed

theorem generateSQL_deterministic_witness:
  "generateSQL mockSchema = generateSQL mockSchema \<and>
   generateSQL (map (\<lambda>table. table\<lparr>relationships := []\<rparr>) mockSchema) = generateSQL mockSchema"
proof -
  have "map rendered_part (map (\<lambda>table. table\<lparr>relationships := []\<rparr>) mockSchema) =
        map rendered_part mockSchema"
    by (simp add: rendered_part_def mockSchema_def)
  with generateSQL_deterministic
    [of "map (\<lambda>table. table\<lparr>relationships := []\<rparr>) mockSchema" mockSchema]
    generateSQL_deterministic [of mockSchema mockSchema]
  show ?thesis by blast
qed

section \<open>Parsing the completion: when the fallback is returned\<close>

definition brace :: "char \<Rightarrow> bool" where
  "brace c \<longleftrightarrow> c = CHR ''{'' \<or> c = CHR ''}''"

lemma filter_dropWhile_disjoint:
  assumes "\<And>x. P x \<Longrightarrow> \<not> Q x"
  shows "filter Q (dropWhile P xs) = filter Q xs"
  using assms by (induction xs) auto

lemma filter_takeWhile_disjoint:
  assumes "\<And>x. P x \<Longrightarrow> \<not> Q x"
  shows "filter Q (takeWhile P xs) = []"
  using assms by (induction xs) auto

lemma lower_case_no_brace: "lower_case c \<Longrightarrow> \<not> brace c"
  by (auto simp: lower_case_def brace_def)

lemma white_space_no_brace: "white_space c \<Longrightarrow> \<not> brace c"
  by (auto simp: white_space_def brace_def)

lemma no_brace_literals:
  "\<not> brace (CHR 0x0A)" "\<not> brace (CHR 0x60)" "\<not> brace (CHR 0x20)"
  by (simp_all add: brace_def)

lemma fence_braces:
  assumes "fence s = Some rest"
  shows "filter brace s = filter brace rest"
proof (cases "take 3 s = ''```''")
  case True
  with assms obtain c where dw: "dropWhile lower_case (drop 3 s) = c # rest" and c: "c = CHR 0x0A"
    by (auto simp: fence_def split: list.splits if_splits)
  have "filter brace s = filter brace (take 3 s) @ filter brace (drop 3 s)"
    by (metis append_take_drop_id filter_append)
  also have "filter brace (take 3 s) = []"
    using True by (simp add: no_brace_literals)
  also have "filter brace (drop 3 s) = filter brace (dropWhile lower_case (drop 3 s))"
    by (simp add: filter_dropWhile_disjoint lower_case_no_brace)
  finally show ?thesis using dw c by (simp add: no_brace_literals)
next
  case False
  with assms have t: "take 4 s = CHR 0x0A # ''```''" and r: "rest = drop 4 s"
    by (auto simp: fence_def split: if_splits)
  have "filter brace s = filter brace (take 4 s) @ filter brace (drop 4 s)"
    by (metis append_take_drop_id filter_append)
  with t r show ?thesis by (simp add: no_brace_literals)
qed

lemma strip_fences_braces: "filter brace (strip_fences s) = filter brace s"
proof (induction s rule: strip_fences.induct)
  case 1
  show ?case by simp
next
  case (2 c cs)
  show ?case
  proof (cases "fence (c # cs)")
    case None
    with "2.IH"(1) [OF None] show ?thesis by simp
  next
    case (Some rest)
    with "2.IH"(2) [OF Some] fence_braces [OF Some] show ?thesis by simp
  qed
qed

lemma remove_newlines_braces: "filter brace (remove_newlines s) = filter brace s"
  by (induction s) (auto simp: remove_newlines_def brace_def)

lemma collapse_spaces_braces: "filter brace (collapse_spaces s) = filter brace s"
proof (induction s rule: collapse_spaces.induct)
  case 1
  show ?case by simp
next
  case (2 c cs)
  show ?case
  proof (cases "white_space c")
    case True
    have "filter brace (dropWhile white_space cs) = filter brace cs"
      by (simp add: filter_dropWhile_disjoint white_space_no_brace)
    with "2.IH"(1) [OF True] True white_space_no_brace [OF True] show ?thesis
      by (simp add: no_brace_literals)
  next
    case False
    with "2.IH"(2) [OF False] show ?thesis by simp
  qed
qed

lemma trim_braces: "filter brace (trim s) = filter brace s"
proof -
  have "filter brace (trim s) = rev (filter brace (dropWhile white_space (rev (dropWhile white_space s))))"
    by (simp add: trim_def rev_filter)
  also have "\<dots> = rev (filter brace (rev (dropWhile white_space s)))"
    by (simp add: filter_dropWhile_disjoint white_space_no_brace)
  also have "\<dots> = filter brace (dropWhile white_space s)"
    by (simp add: rev_filter)
  also have "\<dots> = filter brace s"
    by (simp add: filter_dropWhile_disjoint white_space_no_brace)
  finally show ?thesis .
qed

text \<open>Cleaning neither removes, adds nor reorders braces.\<close>

lemma clean_braces: "filter brace (clean response) = filter brace response"
  by (simp add: clean_def trim_braces collapse_spaces_braces remove_newlines_braces
      strip_fences_braces)

lemma closes_after_open_braces:
  "CHR ''}'' \<in> set (dropWhile (\<lambda>c. c \<noteq> CHR ''{'') s) \<longleftrightarrow>
   CHR ''}'' \<in> set (dropWhile (\<lambda>c. c \<noteq> CHR ''{'') (filter brace s))"
  by (induction s) (auto simp: brace_def)

lemma match_object_None:
  assumes "CHR ''}'' \<notin> set (dropWhile (\<lambda>c. c \<noteq> CHR ''{'') s)"
  shows "match_object s = None"
  using assms
proof (induction s)
  case Nil
  show ?case by simp
next
  case (Cons c cs)
  show ?case
  proof (cases "c = CHR ''{''")
    case True
    with Cons.prems have no: "CHR ''}'' \<notin> set cs" by simp
    then have "CHR ''}'' \<notin> set (takeWhile (\<lambda>c. \<not> line_terminator c) cs)"
      by (auto dest: set_takeWhileD)
    moreover from no have "CHR ''}'' \<notin> set (dropWhile (\<lambda>c. c \<noteq> CHR ''{'') cs)"
      by (auto dest: set_dropWhileD)
    ultimately show ?thesis using True Cons.IH by simp
  next
    case False
    with Cons show ?thesis by simp
  qed
qed

lemma match_object_clean_None:
  assumes "CHR ''}'' \<notin> set (dropWhile (\<lambda>c. c \<noteq> CHR ''{'') response)"
  shows "match_object (clean response) = None"
proof -
  from assms have "CHR ''}'' \<notin> set (dropWhile (\<lambda>c. c \<noteq> CHR ''{'') (filter brace (clean response)))"
    using closes_after_open_braces [of response] by (simp add: clean_braces)
  then show ?thesis
    using closes_after_open_braces [of "clean response"] by (intro match_object_None) simp
qed

lemma match_object_starts:
  "match_object s = Some jsonStr \<Longrightarrow> \<exists>rest. jsonStr = CHR ''{'' # rest"
  by (induction s) (auto simp: Let_def split: if_splits)

lemma lex_open_brace: "lex (CHR ''{'' # cs) = Some ts \<Longrightarrow> \<exists>ts'. ts = LBrace # ts'"
  by (auto simp: json_space_def)

lemma parse_value_open_brace:
  "parse_value (LBrace # ts) = Some (v, rest) \<Longrightarrow> \<exists>members. v = JObject members"
  by (cases ts rule: parse_value.cases) (auto split: option.splits)

lemma JSON_parse_object:
  assumes "JSON_parse (CHR ''{'' # cs) = Some v"
  shows "\<exists>members. v = JObject members"
proof -
  from assms obtain ts rest where "lex (CHR ''{'' # cs) = Some ts" "parse_value ts = Some (v, rest)"
    by (auto simp: JSON_parse_def split: option.splits list.splits)
  with lex_open_brace parse_value_open_brace show ?thesis by blast
qed

text \<open>
  The surplus of opening over closing brace tokens. A value that parses leaves the
  surplus of the tokens as it was, so that a text that \<^verbatim>\<open>JSON.parse\<close> accepts has as
  many opening as closing braces outside its strings.
\<close>

definition surplus :: "token list \<Rightarrow> int" where
  "surplus ts = int (count_list ts LBrace) - int (count_list ts RBrace)"

lemma surplus_simps [simp]:
  "surplus [] = 0"
  "surplus (LBrace # ts) = surplus ts + 1"
  "surplus (RBrace # ts) = surplus ts - 1"
  "t \<noteq> LBrace \<Longrightarrow> t \<noteq> RBrace \<Longrightarrow> surplus (t # ts) = surplus ts"
  by (simp_all add: surplus_def)

lemma parse_surplus:
  "parse_value ts = Some (v, rest) \<Longrightarrow> surplus ts = surplus rest"
  "parse_elements ts = Some (vs, rest) \<Longrightarrow> surplus ts = surplus rest"
  "parse_members ts = Some (ms, rest) \<Longrightarrow> surplus ts + 1 = surplus rest"
proof (induction ts and ts and ts arbitrary: v rest and vs rest and ms rest
    rule: parse_value_parse_elements_parse_members.induct)
  case (11 ts)
  from "11.prems" obtain x r where v: "parse_value ts = Some (x, r)" and r: "length r < length ts"
    and k: "(case r of
               Comma # rest' \<Rightarrow>
                 (case parse_elements rest' of
                    None \<Rightarrow> None
                  | Some (vs, rest'') \<Rightarrow> Some (x # vs, rest''))
             | RBracket # rest' \<Rightarrow> Some ([x], rest')
             | _ \<Rightarrow> None) = Some (vs, rest)"
    by (subst (asm) parse_elements.simps) (auto split: option.splits if_splits)
  from "11.IH"(1) [OF v] have s: "surplus ts = surplus r" .
  show ?case
  proof (cases r)
    case Nil
    with k show ?thesis by simp
  next
    case (Cons t rest')
    show ?thesis
    proof (cases "t = Comma")
      case True
      with k Cons obtain vs' where "parse_elements rest' = Some (vs', rest)"
        by (auto split: option.splits)
      from "11.IH"(2) [OF v refl r Cons True this] s Cons True show ?thesis by simp
    next
      case False
      with k Cons s show ?thesis by (cases t) auto
    qed
  qed
next
  case (12 key ts)
  from "12.prems" obtain x r where v: "parse_value ts = Some (x, r)" and r: "length r < length ts"
    and k: "(case r of
               Comma # rest' \<Rightarrow>
                 (case parse_members rest' of
                    None \<Rightarrow> None
                  | Some (ms, rest'') \<Rightarrow> Some ((key, x) # ms, rest''))
             | RBrace # rest' \<Rightarrow> Some ([(key, x)], rest')
             | _ \<Rightarrow> None) = Some (ms, rest)"
    by (subst (asm) parse_members.simps(1)) (auto split: option.splits if_splits)
  from "12.IH"(1) [OF v] have s: "surplus ts = surplus r" .
  show ?case
  proof (cases r)
    case Nil
    with k show ?thesis by simp
  next
    case (Cons t rest')
    show ?thesis
    proof (cases "t = Comma")
      case True
      with k Cons obtain ms' where "parse_members rest' = Some (ms', rest)"
        by (auto split: option.splits)
      from "12.IH"(2) [OF v refl r Cons True this] s Cons True show ?thesis by simp
    next
      case False
      with k Cons s show ?thesis by (cases t) auto
    qed
  qed
qed (auto split: option.splits)

lemma JSON_parse_unbalanced:
  assumes "lex text = Some ts" and "count_list ts LBrace \<noteq> count_list ts RBrace"
  shows "JSON_parse text = None"
proof (rule ccontr)
  assume "JSON_parse text \<noteq> None"
  with assms(1) obtain v where "parse_value ts = Some (v, [])"
    by (auto simp: JSON_parse_def split: option.splits list.splits)
  from parse_surplus(1) [OF this] assms(2) show False by (simp add: surplus_def)
qed

lemma parse_response_Static_iff:
  "parse_response response = Static mockSchema \<longleftrightarrow>
     match_object (clean response) = None \<or>
     (\<exists>jsonStr. match_object (clean response) = Some jsonStr \<and> JSON_parse jsonStr = None)"
proof (cases "match_object (clean response)")
  case None
  then show ?thesis by (simp add: parse_response_def)
next
  case (Some jsonStr)
  show ?thesis
  proof (cases "JSON_parse jsonStr")
    case None
    with Some show ?thesis by (simp add: parse_response_def)
  next
    case (Some v)
    from match_object_starts [OF \<open>match_object (clean response) = Some jsonStr\<close>]
    obtain rest where "jsonStr = CHR ''{'' # rest" by blast
    with Some JSON_parse_object obtain members where "v = JObject members" by blast
    with Some \<open>match_object (clean response) = Some jsonStr\<close> show ?thesis
      by (simp add: parse_response_def)
  qed
qed

lemma parse_response_not_json: "parse_response ''not json'' = Static mockSchema"
  by (simp add: parse_response_def match_object_clean_None)

lemma parse_response_open_only: "parse_response ''{ tables: ['' = Static mockSchema"
  by (simp add: parse_response_def match_object_clean_None)

text \<open>
  Claim C1, as the code has it. For a non-empty completion text, \<open>generateSchema\<close>
  returns \<open>mockSchema\<close> when no closing brace follows the first opening brace of the
  text, so in particular when the text has no opening brace at all; when the text
  between the first opening and the last closing brace of the cleaned text has
  unbalanced braces outside its strings; and whenever \<^verbatim>\<open>JSON.parse\<close> rejects that
  text. The literal inputs \<^verbatim>\<open>not json\<close> and \<^verbatim>\<open>{ tables: [\<close> yield \<open>mockSchema\<close>.
\<close>

theorem generateSchema_fallback:
  assumes "response \<noteq> []"
  shows
    "(CHR ''{'' \<notin> set response \<longrightarrow>
        generateSchema (Some response) = Normal (Static mockSchema)) \<and>
     (CHR ''}'' \<notin> set (dropWhile (\<lambda>c. c \<noteq> CHR ''{'') response) \<longrightarrow>
        generateSchema (Some response) = Normal (Static mockSchema)) \<and>
     (\<forall>jsonStr ts. match_object (clean response) = Some jsonStr \<longrightarrow>
        lex jsonStr = Some ts \<longrightarrow> count_list ts LBrace \<noteq> count_list ts RBrace \<longrightarrow>
        generateSchema (Some response) = Normal (Static mockSchema)) \<and>
     (\<forall>jsonStr. match_object (clean response) = Some jsonStr \<longrightarrow>
        JSON_parse jsonStr = None \<longrightarrow>
        generateSchema (Some response) = Normal (Static mockSchema)) \<and>
     generateSchema (Some ''not json'') = Normal (Static mockSchema) \<and>
     generateSchema (Some ''{ tables: ['') = Normal (Static mockSchema)"
proof (intro conjI allI impI)
  assume "CHR ''{'' \<notin> set response"
  then have d: "dropWhile (\<lambda>c. c \<noteq> CHR ''{'') response = []"
    by (induction response) auto
  have "CHR ''}'' \<notin> set (dropWhile (\<lambda>c. c \<noteq> CHR ''{'') response)"
    unfolding d by simp
  then have "match_object (clean response) = None"
    by (rule match_object_clean_None)
  with assms show "generateSchema (Some response) = Normal (Static mockSchema)"
    by (simp add: generateSchema_def parse_response_def)
next
  assume "CHR ''}'' \<notin> set (dropWhile (\<lambda>c. c \<noteq> CHR ''{'') response)"
  then have "match_object (clean response) = None"
    by (rule match_object_clean_None)
  with assms show "generateSchema (Some response) = Normal (Static mockSchema)"
    by (simp add: generateSchema_def parse_response_def)
next
  fix jsonStr ts
  assume m: "match_object (clean response) = Some jsonStr"
    and "lex jsonStr = Some ts" "count_list ts LBrace \<noteq> count_list ts RBrace"
  then have "JSON_parse jsonStr = None"
    by (intro JSON_parse_unbalanced)
  with m assms show "generateSchema (Some response) = Normal (Static mockSchema)"
    by (simp add: generateSchema_def parse_response_def)
next
  fix jsonStr
  assume "match_object (clean response) = Some jsonStr" "JSON_parse jsonStr = None"
  with assms show "generateSchema (Some response) = Normal (Static mockSchema)"
    by (simp add: generateSchema_def parse_response_def)
next
  show "generateSchema (Some ''not json'') = Normal (Static mockSchema)"
    by (simp add: generateSchema_def parse_response_not_json)
next
  show "generateSchema (Some ''{ tables: ['') = Normal (Static mockSchema)"
    by (simp add: generateSchema_def parse_response_open_only)
qed

theorem generateSchema_fallback_witness:
  \<open>''{ {"tables": []}'' \<noteq> [] \<and>
   CHR ''}'' \<notin> set (dropWhile (\<lambda>c. c \<noteq> CHR ''{'') ''{ tables: ['') \<and>
   generateSchema (Some ''{ tables: ['') = Normal (Static mockSchema) \<and>
   match_object (clean ''{ {"tables": []}'') = Some ''{ {"tables": []}'' \<and>
   lex ''{ {"tables": []}'' =
     Some [LBrace, LBrace, TString (code_units ''tables''), Colon, LBracket, RBracket, RBrace] \<and>
   JSON_parse ''{ {"tables": []}'' = None \<and>
   generateSchema (Some ''{ {"tables": []}'') = Normal (Static mockSchema)\<close>
proof -
  have m: \<open>match_object (clean ''{ {"tables": []}'') = Some ''{ {"tables": []}''\<close>
    by code_simp
  have l: \<open>lex ''{ {"tables": []}'' =
     Some [LBrace, LBrace, TString (code_units ''tables''), Colon, LBracket, RBracket, RBrace]\<close>
    by code_simp
  have c: \<open>count_list
       [LBrace, LBrace, TString (code_units ''tables''), Colon, LBracket, RBracket, RBrace] LBrace \<noteq>
     count_list
       [LBrace, LBrace, TString (code_units ''tables''), Colon, LBracket, RBracket, RBrace] RBrace\<close>
    by simp
  have p: \<open>JSON_parse ''{ {"tables": []}'' = None\<close>
    using l c by (rule JSON_parse_unbalanced)
  have n: \<open>''{ {"tables": []}'' \<noteq> []\<close>
    by simp
  from generateSchema_fallback [OF n] m l c
  have \<open>generateSchema (Some ''{ {"tables": []}'') = Normal (Static mockSchema)\<close>
    by blast
  moreover from generateSchema_fallback [OF n]
  have "generateSchema (Some ''{ tables: ['') = Normal (Static mockSchema)"
    by blast
  ultimately show ?thesis using m l p by simp
qed

text \<open>
  Claim C1, as stated, fails in three ways. The text \<^verbatim>\<open>{"foo": 1}\<close> parses to an object
  without \<^verbatim>\<open>tables\<close>, and \<open>generateSchema\<close> returns \<^verbatim>\<open>undefined\<close>; in the text
  \<^verbatim>\<open>}{"tables": []}\<close> the braces are unbalanced, and the empty array is returned; the
  empty text has no opening brace, and \<open>generateSchema\<close> throws.
\<close>

theorem generateSchema_fallback_counterexample:
  \<open>generateSchema (Some ''{"foo": 1}'') = Normal (Parsed Undefined) \<and>
   generateSchema (Some ''}{"tables": []}'') = Normal (Parsed (Value (JArray []))) \<and>
   generateSchema (Some []) = Throw (ErrorInstance ''No response from Groq'')\<close>
proof -
  have \<open>parse_response ''{"foo": 1}'' = Parsed Undefined\<close>
    by code_simp
  moreover have \<open>parse_response ''}{"tables": []}'' = Parsed (Value (JArray []))\<close>
    by code_simp
  ultimately show ?thesis by (simp add: generateSchema_def)
qed

section \<open>Rendering the fallback schema\<close>

lemma generateSchema_Static:
  assumes "generateSchema content = Normal (Static schema)"
  shows "schema = mockSchema"
  using assms
  by (auto simp: generateSchema_def parse_response_def Let_def
      split: option.splits if_splits)

lemma push_tables_mockSchema:
  "push_tables [] mockSchema =
     [''\<newline>CREATE TABLE users (\<newline>  id SERIAL PRIMARY KEY,\<newline>  username VARCHAR(50) NOT NULL UNIQUE,\<newline>  email VARCHAR(255) NOT NULL UNIQUE,\<newline>  created_at TIMESTAMP NOT NULL DEFAULT CURRENT_TIMESTAMP\<newline>);'',
      ''CREATE INDEX idx_users_username ON users(username);'',
      ''\<newline>CREATE TABLE posts (\<newline>  id SERIAL PRIMARY KEY,\<newline>  title VARCHAR(255) NOT NULL,\<newline>  content TEXT NOT NULL,\<newline>  user_id INTEGER NOT NULL REFERENCES users(id),\<newline>  created_at TIMESTAMP NOT NULL DEFAULT CURRENT_TIMESTAMP\<newline>);'',
      ''CREATE INDEX idx_posts_user_id ON posts(user_id);'']"
  by (simp add: mockSchema_def column_def)

lemma occurrences_mockSchema:
  "occurrences ''CREATE TABLE'' (generateSQL mockSchema) = 2"
  by code_simp

text \<open>
  Claim C7. Whatever completion made \<open>generateSchema\<close> return the fallback schema, the
  statements rendered from it are the \<^verbatim>\<open>CREATE TABLE\<close> statement of \<^verbatim>\<open>users\<close> with
  the columns id, username, email and created_at, the index of \<^verbatim>\<open>users\<close>, the
  \<^verbatim>\<open>CREATE TABLE\<close> statement of \<^verbatim>\<open>posts\<close> with the columns id, title, content,
  user_id and created_at, and the index of \<^verbatim>\<open>posts\<close>; the rendered text holds
  \<^verbatim>\<open>CREATE TABLE\<close> exactly twice.
\<close>

theorem fallback_renders_users_and_posts:
  assumes "generateSchema content = Normal (Static schema)"
  shows
    "push_tables [] schema =
       [''\<newline>CREATE TABLE users (\<newline>  id SERIAL PRIMARY KEY,\<newline>  username VARCHAR(50) NOT NULL UNIQUE,\<newline>  email VARCHAR(255) NOT NULL UNIQUE,\<newline>  created_at TIMESTAMP NOT NULL DEFAULT CURRENT_TIMESTAMP\<newline>);'',
        ''CREATE INDEX idx_users_username ON users(username);'',
        ''\<newline>CREATE TABLE posts (\<newline>  id SERIAL PRIMARY KEY,\<newline>  title VARCHAR(255) NOT NULL,\<newline>  content TEXT NOT NULL,\<newline>  user_id INTEGER NOT NULL REFERENCES users(id),\<newline>  created_at TIMESTAMP NOT NULL DEFAULT CURRENT_TIMESTAMP\<newline>);'',
        ''CREATE INDEX idx_posts_user_id ON posts(user_id);''] \<and>
     generateSQL schema = join ''\<newline>\<newline>'' (push_tables [] schema) \<and>
     occurrences ''CREATE TABLE'' (generateSQL schema) = 2 \<and>
     map (\<lambda>table. (TableSchema.name table, map SchemaField.name (fields' table))) schema =
       [(''users'', [''id'', ''username'', ''email'', ''created_at'']),
        (''posts'', [''id'', ''title'', ''content'', ''user_id'', ''created_at''])]"
proof -
  from generateSchema_Static [OF assms] have s: "schema = mockSchema" .
  have "map (\<lambda>table. (TableSchema.name table, map SchemaField.name (fields' table))) mockSchema =
       [(''users'', [''id'', ''username'', ''email'', ''created_at'']),
        (''posts'', [''id'', ''title'', ''content'', ''user_id'', ''created_at''])]"
    by (simp add: mockSchema_def)
  with s push_tables_mockSchema occurrences_mockSchema show ?thesis
    by (simp add: generateSQL_def)
qed

theorem fallback_renders_users_and_posts_witness:
  "generateSchema (Some ''not json'') = Normal (Static mockSchema) \<and>
   generateSQL mockSchema =
     ''\<newline>CREATE TABLE users (\<newline>  id SERIAL PRIMARY KEY,\<newline>  username VARCHAR(50) NOT NULL UNIQUE,\<newline>  email VARCHAR(255) NOT NULL UNIQUE,\<newline>  created_at TIMESTAMP NOT NULL DEFAULT CURRENT_TIMESTAMP\<newline>);\<newline>\<newline>CREATE INDEX idx_users_username ON users(username);\<newline>\<newline>\<newline>CREATE TABLE posts (\<newline>  id SERIAL PRIMARY KEY,\<newline>  title VARCHAR(255) NOT NULL,\<newline>  content TEXT NOT NULL,\<newline>  user_id INTEGER NOT NULL REFERENCES users(id),\<newline>  created_at TIMESTAMP NOT NULL DEFAULT CURRENT_TIMESTAMP\<newline>);\<newline>\<newline>CREATE INDEX idx_posts_user_id ON posts(user_id);'' \<and>
   occurrences ''CREATE TABLE'' (generateSQL mockSchema) = 2"
proof -
  have g: "generateSchema (Some ''not json'') = Normal (Static mockSchema)"
    by (simp add: generateSchema_def parse_response_not_json)
  from fallback_renders_users_and_posts [OF g] g show ?thesis
    by simp
qed

section \<open>Grouping the results\<close>

lemma first_seen_snoc:
  "first_seen (xs @ [x]) = (if x \<in> set xs then first_seen xs else first_seen xs @ [x])"
  by (simp add: first_seen_def)

lemma set_first_seen [simp]: "set (first_seen xs) = set xs"
  by (simp add: first_seen_def)

lemma distinct_first_seen [simp]: "distinct (first_seen xs)"
  by (simp add: first_seen_def)

lemma push_into_buckets:
  assumes "distinct ks"
  shows "push_into key r (map (\<lambda>k. (k, f k)) ks) =
     (if key \<in> set ks then map (\<lambda>k. (k, if k = key then f k @ [r] else f k)) ks
      else map (\<lambda>k. (k, f k)) ks @ [(key, [r])])"
  using assms by (induction ks) auto

lemma groupedResults_snoc:
  "groupedResults (rs @ [r]) = push_into (group_key r) r (groupedResults rs)"
  by (simp add: groupedResults_def)

lemma groupedResults_buckets:
  "groupedResults entries =
     map (\<lambda>key. (key, bucket key entries)) (first_seen (map group_key entries))"
proof (induction entries rule: rev_induct)
  case Nil
  show ?case by (simp add: groupedResults_def first_seen_def)
next
  case (snoc r rs)
  let ?ks = "first_seen (map group_key rs)"
  have d: "distinct ?ks" by simp
  show ?case
  proof (cases "group_key r \<in> set (map group_key rs)")
    case True
    then have "group_key r \<in> set ?ks" by simp
    with push_into_buckets [OF d, of "group_key r" r "\<lambda>k. bucket k rs"] snoc.IH True
    show ?thesis
      by (auto simp: groupedResults_snoc first_seen_snoc bucket_def)
  next
    case False
    then have n: "group_key r \<notin> set ?ks" by simp
    from False have "bucket (group_key r) rs = []"
      by (auto simp: bucket_def filter_empty_conv image_iff)
    with push_into_buckets [OF d, of "group_key r" r "\<lambda>k. bucket k rs"] snoc.IH False n
    show ?thesis
      by (auto simp: groupedResults_snoc first_seen_snoc bucket_def)
  qed
qed

lemma mset_buckets:
  assumes "distinct ks"
  shows "mset (concat (map (\<lambda>key. bucket key entries) ks)) =
         mset (filter (\<lambda>r. group_key r \<in> set ks) entries)"
  using assms
proof (induction ks)
  case Nil
  show ?case by simp
next
  case (Cons k ks)
  then have k: "k \<notin> set ks" and IH: "mset (concat (map (\<lambda>key. bucket key entries) ks)) =
         mset (filter (\<lambda>r. group_key r \<in> set ks) entries)" by simp_all
  have "mset (bucket k entries) + mset (filter (\<lambda>r. group_key r \<in> set ks) entries) =
        mset (filter (\<lambda>r. group_key r \<in> set (k # ks)) entries)"
    using k by (induction entries) (auto simp: bucket_def)
  with IH show ?case by simp
qed

lemma mset_groupedResults:
  "mset (concat (map snd (groupedResults entries))) = mset entries"
proof -
  have "concat (map snd (groupedResults entries)) =
        concat (map (\<lambda>key. bucket key entries) (first_seen (map group_key entries)))"
    by (simp add: groupedResults_buckets comp_def)
  then show ?thesis
    by (simp add: mset_buckets)
qed

lemma group_key_eq_iff:
  assumes "CHR ''-'' \<notin> set (database r1)" "CHR ''-'' \<notin> set (database r2)"
  shows "group_key r1 = group_key r2 \<longleftrightarrow>
         database r1 = database r2 \<and> operation r1 = operation r2"
proof
  assume eq: "group_key r1 = group_key r2"
  have tw: "takeWhile (\<lambda>c. c \<noteq> CHR ''-'') (d @ CHR ''-'' # rest) = d" if "CHR ''-'' \<notin> set d" for d rest
    using that by (induction d) auto
  from eq have "takeWhile (\<lambda>c. c \<noteq> CHR ''-'') (group_key r1) =
                takeWhile (\<lambda>c. c \<noteq> CHR ''-'') (group_key r2)" by simp
  with tw [OF assms(1)] tw [OF assms(2)] have "database r1 = database r2"
    by (simp add: group_key_def)
  with eq show "database r1 = database r2 \<and> operation r1 = operation r2"
    by (simp add: group_key_def)
next
  assume "database r1 = database r2 \<and> operation r1 = operation r2"
  then show "group_key r1 = group_key r2" by (simp add: group_key_def)
qed

lemma bucket_member:
  "r \<in> set (bucket key entries) \<longleftrightarrow> r \<in> set entries \<and> group_key r = key"
  by (auto simp: bucket_def)

lemma groupedResults_nonempty:
  assumes "(key, rs) \<in> set (groupedResults entries)"
  shows "rs \<noteq> []"
proof -
  from assms have "key \<in> set (map group_key entries)" and "rs = bucket key entries"
    by (auto simp: groupedResults_buckets)
  then show ?thesis by (auto simp: bucket_def filter_empty_conv)
qed

text \<open>
  Claim C5, as the code has it. The groups are the buckets of the composite key string
  \<^verbatim>\<open>database-operation\<close>, one for each key in the order in which the keys are first
  seen, a bucket holding the entries of its key in their order. So the keys of the
  groups are distinct, the groups together hold the entries of the results, each as
  often as the results do, an entry lies in the group of its own key and in no other
  group, and two entries share a group if and only if their keys are equal. For backend
  names without a hyphen, equal keys are the same as equal backend name and equal
  operation name.
\<close>

theorem groupedResults_partition:
  "groupedResults entries =
     map (\<lambda>key. (key, bucket key entries)) (first_seen (map group_key entries)) \<and>
   distinct (map fst (groupedResults entries)) \<and>
   mset (concat (map snd (groupedResults entries))) = mset entries \<and>
   (\<forall>r \<in> set entries. \<forall>g \<in> set (groupedResults entries).
      r \<in> set (snd g) \<longleftrightarrow> fst g = group_key r) \<and>
   (\<forall>r \<in> set entries. \<exists>g \<in> set (groupedResults entries). fst g = group_key r) \<and>
   (\<forall>r1 r2. CHR ''-'' \<notin> set (database r1) \<longrightarrow> CHR ''-'' \<notin> set (database r2) \<longrightarrow>
      (group_key r1 = group_key r2 \<longleftrightarrow>
       database r1 = database r2 \<and> operation r1 = operation r2))"
proof (intro conjI)
  show "groupedResults entries =
     map (\<lambda>key. (key, bucket key entries)) (first_seen (map group_key entries))"
    by (rule groupedResults_buckets)
  show "distinct (map fst (groupedResults entries))"
    by (simp add: groupedResults_buckets comp_def)
  show "mset (concat (map snd (groupedResults entries))) = mset entries"
    by (rule mset_groupedResults)
  show "\<forall>r \<in> set entries. \<forall>g \<in> set (groupedResults entries).
      r \<in> set (snd g) \<longleftrightarrow> fst g = group_key r"
    by (auto simp: groupedResults_buckets bucket_member)
  show "\<forall>r \<in> set entries. \<exists>g \<in> set (groupedResults entries). fst g = group_key r"
    by (auto simp: groupedResults_buckets)
  show "\<forall>r1 r2. CHR ''-'' \<notin> set (database r1) \<longrightarrow> CHR ''-'' \<notin> set (database r2) \<longrightarrow>
      (group_key r1 = group_key r2 \<longleftrightarrow>
       database r1 = database r2 \<and> operation r1 = operation r2)"
    using group_key_eq_iff by blast
qed

theorem groupedResults_partition_witness:
  "groupedResults
     [recorded ''Neon'' ''Simple Query'' True 12,
      recorded ''Supabase'' ''Simple Query'' False 8,
      recorded ''Neon'' ''Simple Query'' True 14] =
     [(''Neon-Simple Query'',
       [recorded ''Neon'' ''Simple Query'' True 12, recorded ''Neon'' ''Simple Query'' True 14]),
      (''Supabase-Simple Query'', [recorded ''Supabase'' ''Simple Query'' False 8])] \<and>
   CHR ''-'' \<notin> set (database (recorded ''Neon'' ''Simple Query'' True 12)) \<and>
   CHR ''-'' \<notin> set (database (recorded ''Supabase'' ''Simple Query'' False 8)) \<and>
   group_key (recorded ''Neon'' ''Simple Query'' True 12) \<noteq>
     group_key (recorded ''Supabase'' ''Simple Query'' False 8)"
  using groupedResults_partition
    [of "[recorded ''Neon'' ''Simple Query'' True 12,
          recorded ''Supabase'' ''Simple Query'' False 8,
          recorded ''Neon'' ''Simple Query'' True 14]"]
  by (simp add: recorded_def bucket_def group_key_def first_seen_def)

text \<open>
  Claim C5, as stated, fails where a backend name holds a hyphen: the entries of
  backend \<^verbatim>\<open>Neon-pooled\<close>, operation \<^verbatim>\<open>Read\<close>, and of backend \<^verbatim>\<open>Neon\<close>, operation
  \<^verbatim>\<open>pooled-Read\<close>, have the same key and land in one group.
\<close>

theorem groupedResults_key_collision_counterexample:
  "groupedResults
     [recorded ''Neon-pooled'' ''Read'' True 12, recorded ''Neon'' ''pooled-Read'' True 15] =
     [(''Neon-pooled-Read'',
       [recorded ''Neon-pooled'' ''Read'' True 12, recorded ''Neon'' ''pooled-Read'' True 15])] \<and>
   database (recorded ''Neon-pooled'' ''Read'' True 12) \<noteq>
     database (recorded ''Neon'' ''pooled-Read'' True 15)"
  by (simp add: groupedResults_def group_key_def recorded_def)

section \<open>Rounding to binary64\<close>

lemma round_half_even_of_int [simp]: "round_half_even (of_int n) = n"
  by (simp add: round_half_even_def)

lemma round_half_even_close: "\<bar>of_int (round_half_even x) - x\<bar> \<le> 1 / 2"
proof -
  have "of_int \<lfloor>x\<rfloor> \<le> x" "x < of_int \<lfloor>x\<rfloor> + 1" by linarith+
  then show ?thesis
    by (auto simp: round_half_even_def Let_def abs_le_iff)
qed

lemma exponent_ge1:
  assumes "1 \<le> \<bar>x\<bar>"
  shows "2 powi exponent x \<le> \<bar>x\<bar>" and "\<bar>x\<bar> < 2 powi (exponent x + 1)"
proof -
  let ?m = "\<lfloor>\<bar>x\<bar>\<rfloor>"
  from assms have m: "0 < ?m" by linarith
  from bitlen_bounds [OF m] have lo: "2 ^ nat (bitlen ?m - 1) \<le> ?m" and hi: "?m < 2 ^ nat (bitlen ?m)"
    by simp_all
  from m have b1: "1 \<le> bitlen ?m" by (simp add: bitlen_alt_def)
  have e: "exponent x = bitlen ?m - 1" using assms by (simp add: exponent_def)
  have "(2::rat) powi exponent x = 2 ^ nat (bitlen ?m - 1)"
    using b1 e by (simp add: power_int_def)
  also have "\<dots> = of_int (2 ^ nat (bitlen ?m - 1))" by simp
  also have "\<dots> \<le> of_int ?m" using lo by (simp only: of_int_le_iff)
  also have "\<dots> \<le> \<bar>x\<bar>" by linarith
  finally show "2 powi exponent x \<le> \<bar>x\<bar>" .
  from hi have "?m + 1 \<le> 2 ^ nat (bitlen ?m)" by simp
  then have "(of_int (?m + 1) :: rat) \<le> of_int (2 ^ nat (bitlen ?m))" by (simp only: of_int_le_iff)
  moreover have "\<bar>x\<bar> < of_int (?m + 1)" by linarith
  ultimately have "\<bar>x\<bar> < of_int (2 ^ nat (bitlen ?m))" by linarith
  also have "\<dots> = (2::rat) powi (exponent x + 1)"
    using b1 e by (simp add: power_int_def)
  finally show "\<bar>x\<bar> < 2 powi (exponent x + 1)" .
qed

lemma powi_neg: "0 \<le> n \<Longrightarrow> (2::rat) powi (- n) = 1 / 2 ^ nat n"
  by (cases "n = 0") (simp_all add: power_int_def power_one_over)

lemma exponent_lt1:
  assumes "x \<noteq> 0" "\<bar>x\<bar> < 1"
  shows "2 powi exponent x \<le> \<bar>x\<bar>" and "\<bar>x\<bar> < 2 powi (exponent x + 1)"
proof -
  let ?y = "1 / \<bar>x\<bar>"
  let ?m = "\<lceil>?y\<rceil> - 1"
  let ?k = "bitlen ?m"
  from assms have ax: "0 < \<bar>x\<bar>" by simp
  with assms have y1: "1 < ?y" by (simp add: field_simps)
  then have m: "0 < ?m" by linarith
  from bitlen_bounds [OF m] have lo: "2 ^ nat (?k - 1) \<le> ?m" and hi: "?m < 2 ^ nat ?k"
    by simp_all
  from m have k1: "1 \<le> ?k" by (simp add: bitlen_alt_def)
  have e: "exponent x = - ?k" using assms by (simp add: exponent_def)
  have "(of_int ?m :: rat) < ?y" by linarith
  moreover have "(of_int (2 ^ nat (?k - 1)) :: rat) \<le> of_int ?m"
    using lo by (simp only: of_int_le_iff)
  ultimately have "(of_int (2 ^ nat (?k - 1)) :: rat) < ?y" by linarith
  then have ylo: "(2::rat) ^ nat (?k - 1) < ?y" by simp
  from hi have "?m + 1 \<le> 2 ^ nat ?k" by simp
  then have "(of_int (?m + 1) :: rat) \<le> of_int (2 ^ nat ?k)" by (simp only: of_int_le_iff)
  moreover have "?y \<le> of_int (?m + 1)" by linarith
  ultimately have "?y \<le> (of_int (2 ^ nat ?k) :: rat)" by linarith
  then have yhi: "?y \<le> (2::rat) ^ nat ?k" by simp
  have p: "(2::rat) powi exponent x = 1 / 2 ^ nat ?k"
    using k1 powi_neg [of ?k] unfolding e by simp
  have q: "(2::rat) powi (exponent x + 1) = 1 / 2 ^ nat (?k - 1)"
  proof -
    have "exponent x + 1 = - (?k - 1)" using e by simp
    moreover have "0 \<le> ?k - 1" using k1 by simp
    ultimately show ?thesis using powi_neg [of "?k - 1"] by simp
  qed
  from yhi ax show "2 powi exponent x \<le> \<bar>x\<bar>"
    unfolding p by (simp add: field_simps)
  from ylo ax show "\<bar>x\<bar> < 2 powi (exponent x + 1)"
    unfolding q by (simp add: field_simps)
qed

lemma exponent_bounds:
  assumes "x \<noteq> 0"
  shows "2 powi exponent x \<le> \<bar>x\<bar>" and "\<bar>x\<bar> < 2 powi (exponent x + 1)"
  using assms exponent_ge1 [of x] exponent_lt1 [of x] by (cases "1 \<le> \<bar>x\<bar>"; simp)+

text \<open>The relative error of one rounding is at most \<open>2\<^sup>-\<^sup>5\<^sup>3\<close>.\<close>

lemma binary64_error: "\<bar>binary64 x - x\<bar> \<le> \<bar>x\<bar> / 2 ^ 53"
proof (cases "x = 0")
  case True
  then show ?thesis by (simp add: binary64_def)
next
  case False
  define u :: rat where "u = 2 powi (exponent x - 52)"
  have u: "0 < u" by (simp add: u_def)
  have b: "binary64 x = of_int (round_half_even (x / u)) * u"
    using False by (simp add: binary64_def u_def Let_def)
  have "binary64 x - x = (of_int (round_half_even (x / u)) - x / u) * u"
    using u by (simp add: b field_simps)
  then have "\<bar>binary64 x - x\<bar> = \<bar>of_int (round_half_even (x / u)) - x / u\<bar> * u"
    using u by (simp add: abs_mult)
  also have "\<dots> \<le> 1 / 2 * u"
    using round_half_even_close [of "x / u"] u by (intro mult_right_mono) simp_all
  also have "\<dots> = 2 powi exponent x / 2 ^ 53"
  proof -
    have "(2::rat) powi (exponent x - 52) = 2 powi exponent x / 2 ^ 52"
      by (simp add: power_int_diff)
    then show ?thesis by (simp add: u_def)
  qed
  also have "\<dots> \<le> \<bar>x\<bar> / 2 ^ 53"
    using exponent_bounds(1) [OF False] by (simp add: divide_right_mono)
  finally show ?thesis .
qed

lemma binary64_integral:
  assumes "x / 2 powi (exponent x - 52) = of_int k"
  shows "binary64 x = x"
proof (cases "x = 0")
  case True
  then show ?thesis by (simp add: binary64_def)
next
  case False
  have u: "(2::rat) powi (exponent x - 52) \<noteq> 0" by simp
  from False have "binary64 x = of_int (round_half_even (of_int k)) * 2 powi (exponent x - 52)"
    by (simp add: binary64_def Let_def assms)
  also have "\<dots> = x / 2 powi (exponent x - 52) * 2 powi (exponent x - 52)"
    by (simp add: assms)
  also have "\<dots> = x" using u by simp
  finally show ?thesis .
qed

text \<open>Integers up to \<open>2\<^sup>5\<^sup>3\<close> in magnitude are binary64 numbers.\<close>

lemma binary64_of_int:
  assumes "\<bar>n\<bar> \<le> 2 ^ 53"
  shows "binary64 (of_int n) = of_int n"
proof (cases "n = 0")
  case True
  then show ?thesis by (simp add: binary64_def)
next
  case False
  let ?x = "of_int n :: rat"
  let ?e = "exponent ?x"
  from False have x0: "?x \<noteq> 0" by simp
  from False have "1 \<le> \<bar>n\<bar>" by simp
  then have x1: "1 \<le> \<bar>?x\<bar>" by (metis of_int_1_le_iff of_int_abs)
  from assms have "(of_int \<bar>n\<bar> :: rat) \<le> of_int (2 ^ 53)" by (simp only: of_int_le_iff)
  then have x53: "\<bar>?x\<bar> \<le> 2 ^ 53" by simp
  have e0: "0 \<le> ?e"
  proof (rule ccontr)
    assume "\<not> 0 \<le> ?e"
    then have "?e + 1 \<le> 0" by simp
    then have "(2::rat) powi (?e + 1) \<le> 2 powi 0"
      by (intro power_int_increasing) simp_all
    with exponent_bounds(2) [OF x0] x1 show False by simp
  qed
  from exponent_bounds(1) [OF x0] x53 have "(2::rat) powi ?e \<le> 2 powi 53" by simp
  then have e53: "?e \<le> 53"
    by (rule power_int_le_imp_le_exp [rotated]) simp_all
  show ?thesis
  proof (cases "?e \<le> 52")
    case True
    then have "(2::rat) powi (?e - 52) = 1 / 2 ^ nat (52 - ?e)"
      using powi_neg [of "52 - ?e"] by simp
    then have "?x / 2 powi (?e - 52) = of_int (n * 2 ^ nat (52 - ?e))" by simp
    then show ?thesis by (rule binary64_integral)
  next
    case False
    with e53 have e: "?e = 53" by simp
    with exponent_bounds(1) [OF x0] x53 have "\<bar>?x\<bar> = 2 ^ 53" by simp
    then have "(of_int \<bar>n\<bar> :: rat) = of_int (2 ^ 53)" by simp
    then have "\<bar>n\<bar> = 2 ^ 53" by (simp only: of_int_eq_iff)
    then have "even n" by (metis even_abs_add_iff even_add even_numeral even_power zero_less_numeral)
    then obtain m where m: "n = 2 * m" by (elim evenE)
    have "(2::rat) powi (?e - 52) = 2" unfolding e by simp
    then have "?x / 2 powi (?e - 52) = of_int m" by (simp add: m)
    then show ?thesis by (rule binary64_integral)
  qed
qed

lemma sum_durations_exact_aux:
  assumes "\<bar>s\<bar> + (\<Sum>r\<leftarrow>rs. \<bar>duration r\<bar>) \<le> 2 ^ 53"
  shows "foldl (\<lambda>sum r. binary64 (sum + of_int (duration r))) (of_int s) rs =
         of_int (s + (\<Sum>r\<leftarrow>rs. duration r))"
  using assms
proof (induction rs arbitrary: s)
  case Nil
  show ?case by simp
next
  case (Cons r rs)
  have b: "\<bar>s + duration r\<bar> \<le> \<bar>s\<bar> + \<bar>duration r\<bar>" by simp
  have nn: "0 \<le> (\<Sum>r\<leftarrow>rs. \<bar>duration r\<bar>)" by (induction rs) simp_all
  from Cons.prems b nn have "\<bar>s + duration r\<bar> \<le> 2 ^ 53" by simp
  then have "binary64 (of_int s + of_int (duration r)) = of_int (s + duration r)"
    using binary64_of_int [of "s + duration r"] by simp
  moreover from Cons.prems b have "\<bar>s + duration r\<bar> + (\<Sum>r\<leftarrow>rs. \<bar>duration r\<bar>) \<le> 2 ^ 53"
    by simp
  ultimately show ?case using Cons.IH [of "s + duration r"] by (simp add: add.assoc)
qed

lemma sum_durations_exact:
  assumes "(\<Sum>r\<leftarrow>rs. \<bar>duration r\<bar>) \<le> 2 ^ 53"
  shows "sum_durations rs = of_int (\<Sum>r\<leftarrow>rs. duration r)"
  using sum_durations_exact_aux [of 0 rs] assms by (simp add: sum_durations_def)

lemma two_roundings:
  fixes a :: rat
  assumes "0 \<le> a"
  shows "\<bar>binary64 (binary64 a * 100) - a * 100\<bar> \<le> a * 100 / 2 ^ 51"
proof -
  define c :: rat where "c = 2 ^ 53"
  define d where "d = a / c"
  have c: "1 \<le> c" by (simp add: c_def)
  have d0: "0 \<le> d" using assms c by (simp add: d_def)
  have da: "d \<le> a"
    using mult_left_mono [of 1 c a] assms c by (simp add: d_def field_simps)
  have dc: "d / c \<le> d"
    using mult_left_mono [of 1 c d] d0 c by (simp add: field_simps)
  from binary64_error [of a] assms have e1: "\<bar>binary64 a - a\<bar> \<le> d"
    by (simp add: d_def c_def)
  then have lo: "a - d \<le> binary64 a" and hi: "binary64 a \<le> a + d" by linarith+
  from lo da have p0: "0 \<le> binary64 a * 100" by simp
  from binary64_error [of "binary64 a * 100"] p0
  have e2: "\<bar>binary64 (binary64 a * 100) - binary64 a * 100\<bar> \<le> binary64 a * 100 / c"
    by (simp add: c_def)
  have "binary64 a * 100 / c \<le> (a + d) * 100 / c"
    using hi c by (intro divide_right_mono) simp_all
  also have "\<dots> = 100 * d + 100 * (d / c)"
    using c by (simp add: d_def field_simps)
  also have "\<dots> \<le> 200 * d" using dc by simp
  finally have e3: "binary64 a * 100 / c \<le> 200 * d" .
  from e1 have e4: "\<bar>binary64 a * 100 - a * 100\<bar> \<le> 100 * d" by linarith
  from e2 e3 e4 have "\<bar>binary64 (binary64 a * 100) - a * 100\<bar> \<le> 300 * d" by linarith
  also have "\<dots> \<le> 400 * d" using d0 by simp
  also have "\<dots> = a * 100 / 2 ^ 51" by (simp add: d_def c_def)
  finally show ?thesis .
qed

section \<open>The report: average duration and success rate\<close>

lemma printResults_buckets:
  "printResults b =
     map (\<lambda>key. report_group (key, bucket key (results b)))
       (first_seen (map group_key (results b)))"
  by (simp add: printResults_def groupedResults_buckets comp_def)

text \<open>
  Claim C4, as the code has it. For a group of N \<ge> 1 entries of which K succeeded,
  whose durations sum to at most \<open>2\<^sup>5\<^sup>3\<close> in absolute value, the average duration
  is the quotient of the sum of all N durations, those of failed entries included, by
  N, rounded once to binary64, and so within the relative error \<open>2\<^sup>-\<^sup>5\<^sup>3\<close> of the
  arithmetic mean; the success rate is the quotient K / N rounded to binary64,
  multiplied by 100 and rounded again, and so within the relative error
  \<open>2\<^sup>-\<^sup>5\<^sup>1\<close> of (K / N) \<times> 100; it is exactly 100 when all entries succeeded and
  exactly 0 when none did.
\<close>

theorem aggregate_up_to_rounding:
  assumes "length rs = N" and "length (filter success rs) = K" and "0 < N"
    and "(\<Sum>r\<leftarrow>rs. \<bar>duration r\<bar>) \<le> 2 ^ 53"
  shows
    "\<exists>avg rate.
       avgDuration rs = Num avg \<and> successRate rs = Num rate \<and>
       avg = binary64 (mean_duration rs) \<and>
       \<bar>avg - mean_duration rs\<bar> \<le> \<bar>mean_duration rs\<bar> / 2 ^ 53 \<and>
       rate = binary64 (binary64 (of_nat K / of_nat N) * 100) \<and>
       \<bar>rate - of_nat K / of_nat N * 100\<bar> \<le> of_nat K / of_nat N * 100 / 2 ^ 51 \<and>
       (K = N \<longrightarrow> rate = 100) \<and>
       (K = 0 \<longrightarrow> rate = 0)"
proof -
  let ?N = "of_nat N :: rat"
  let ?K = "of_nat K :: rat"
  from assms(1,3) have ne: "rs \<noteq> []" and N: "0 < ?N" by auto
  have avg: "avgDuration rs = Num (binary64 (mean_duration rs))"
    using ne assms(4) by (simp add: avgDuration_def mean_duration_def sum_durations_exact)
  have rate: "successRate rs = Num (binary64 (binary64 (?K / ?N) * 100))"
    using ne assms(1,2) by (simp add: successRate_def)
  have a0: "0 \<le> ?K / ?N" by simp
  have one: "binary64 1 = 1" using binary64_of_int [of 1] by simp
  have hundred: "binary64 100 = 100" using binary64_of_int [of 100] by simp
  have all: "binary64 (binary64 (?K / ?N) * 100) = 100" if "K = N"
    using that N by (simp add: one hundred)
  have none: "binary64 (binary64 (?K / ?N) * 100) = 0" if "K = 0"
    using that by (simp add: binary64_def)
  from two_roundings [OF a0]
  have close: "\<bar>binary64 (binary64 (?K / ?N) * 100) - ?K / ?N * 100\<bar>
               \<le> ?K / ?N * 100 / 2 ^ 51" .
  show ?thesis
    using avg rate close all none binary64_error [of "mean_duration rs"]
    by (intro exI [of _ "binary64 (mean_duration rs)"]
        exI [of _ "binary64 (binary64 (?K / ?N) * 100)"]) simp
qed

theorem aggregate_up_to_rounding_witness:
  "[recorded ''Neon'' ''Simple Query'' True 10, recorded ''Neon'' ''Simple Query'' False 20,
    recorded ''Neon'' ''Simple Query'' True 31] \<noteq> [] \<and>
   (\<Sum>r\<leftarrow>[recorded ''Neon'' ''Simple Query'' True 10,
         recorded ''Neon'' ''Simple Query'' False 20,
         recorded ''Neon'' ''Simple Query'' True 31]. \<bar>duration r\<bar>) \<le> 2 ^ 53 \<and>
   (\<exists>avg rate.
      avgDuration [recorded ''Neon'' ''Simple Query'' True 10,
                   recorded ''Neon'' ''Simple Query'' False 20,
                   recorded ''Neon'' ''Simple Query'' True 31] = Num avg \<and>
      successRate [recorded ''Neon'' ''Simple Query'' True 10,
                   recorded ''Neon'' ''Simple Query'' False 20,
                   recorded ''Neon'' ''Simple Query'' True 31] = Num rate \<and>
      \<bar>avg - 61 / 3\<bar> \<le> (61 / 3) / 2 ^ 53 \<and>
      \<bar>rate - 200 / 3\<bar> \<le> (200 / 3) / 2 ^ 51)"
proof -
  let ?rs = "[recorded ''Neon'' ''Simple Query'' True 10,
              recorded ''Neon'' ''Simple Query'' False 20,
              recorded ''Neon'' ''Simple Query'' True 31]"
  have n: "length ?rs = 3" by simp
  have k: "length (filter success ?rs) = 2" by (simp add: recorded_def)
  have p: "0 < (3::nat)" by simp
  have s: "(\<Sum>r\<leftarrow>?rs. \<bar>duration r\<bar>) \<le> 2 ^ 53" by (simp add: recorded_def)
  have m: "mean_duration ?rs = 61 / 3" by (simp add: mean_duration_def recorded_def)
  from aggregate_up_to_rounding [OF n k p s] obtain avg rate where
    "avgDuration ?rs = Num avg" "successRate ?rs = Num rate"
    "\<bar>avg - mean_duration ?rs\<bar> \<le> \<bar>mean_duration ?rs\<bar> / 2 ^ 53"
    "\<bar>rate - of_nat 2 / of_nat 3 * 100\<bar> \<le> of_nat 2 / of_nat 3 * 100 / 2 ^ 51"
    by blast
  with s show ?thesis unfolding m by simp
qed

text \<open>
  Claim C4, as stated, fails by the rounding. Of 20 entries 11 succeeded: (11 / 20)
  \<times> 100 is 55, and the success rate computed is the next binary64 number above 55,
  which JavaScript prints as \<^verbatim>\<open>55.00000000000001\<close>. Three durations 1, 1 and 2 have
  the mean 4 / 3, and the average computed is the binary64 number nearest to it.
\<close>

theorem successRate_rounding_counterexample:
  "successRate (replicate 11 (recorded ''Neon'' ''Simple Query'' True 12) @
                replicate 9 (recorded ''Neon'' ''Simple Query'' False 12)) =
     Num (55 + 1 / 2 ^ 47) \<and>
   success_percentage (replicate 11 (recorded ''Neon'' ''Simple Query'' True 12) @
                       replicate 9 (recorded ''Neon'' ''Simple Query'' False 12)) = 55 \<and>
   avgDuration [recorded ''Neon'' ''Simple Query'' True 1,
                recorded ''Neon'' ''Simple Query'' True 1,
                recorded ''Neon'' ''Simple Query'' True 2] =
     Num (6004799503160661 / 4503599627370496) \<and>
   mean_duration [recorded ''Neon'' ''Simple Query'' True 1,
                  recorded ''Neon'' ''Simple Query'' True 1,
                  recorded ''Neon'' ''Simple Query'' True 2] = 4 / 3"
  by code_simp

end
